theory Spec2Isabelle
  imports Main "HOL-Library.Word"
begin

section \<open>Platform and operating-system environment\<close>

text \<open>
  The orchestration core of \<^verbatim>\<open>contrib/orch\<close> is embedded as functions that pass
  the program state and the state of the operating system explicitly.  Everything the C
  code obtains from a system call comes from the record \<open>os\<close>: the inbound side of the
  control socket is a script of read events, the outbound side collects the bytes
  written, and the system calls with an effect on the outside world are appended to
  \<open>trace\<close>.  Messages are values: a message leaves the queue once, and the
  \<^verbatim>\<open>free\<close> that follows has no counterpart here; the \<^verbatim>\<open>free\<close> of the
  channel itself is traced.  The layout is the one of an LP64 little-endian machine (FreeBSD/amd64):
  \<^verbatim>\<open>size_t\<close> has 8 bytes, an \<^verbatim>\<open>enum\<close> has 4, \<^verbatim>\<open>struct orch_ipc_header\<close>
  has 16 bytes with 4 bytes of tail padding.
\<close>

type_synonym byte = "8 word"

datatype errno = EAGAIN | EINTR | EIO | EINVAL | ENOMEM | EBADF | ECHILD | EOTHER nat

text \<open>
  The ways in which a C function does not return to its caller: undefined behaviour
  (a null or out-of-bounds access, a heap overflow, an indeterminate value), a failed
  \<^verbatim>\<open>assert\<close>, a system call that never returns because nothing more will happen
  on the descriptor, \<^verbatim>\<open>_exit\<close>, and an \<^verbatim>\<open>execvp\<close> that succeeds.
\<close>

datatype fault = NullDeref | OutOfBounds | HeapOverflow | Indeterminate | UndefinedConv
  | AssertFail | Blocked | Exit int | Exec "string list"

text \<open>A C \<^verbatim>\<open>int\<close> result that is 0, or -1 with \<^verbatim>\<open>errno\<close> set.\<close>

datatype rc = Ok | Fail errno

record orch_ipc_msg =
  hdr_size :: "64 word"
  hdr_tag :: "32 word"
  data :: "byte list"

text \<open>
  The terminal attributes, \<^verbatim>\<open>struct termios\<close>: four flag words, the
  control-character array, and the two speeds.
\<close>

record termios =
  c_iflag :: "32 word"
  c_oflag :: "32 word"
  c_cflag :: "32 word"
  c_lflag :: "32 word"
  c_cc :: "byte list"
  c_ispeed :: "32 word"
  c_ospeed :: "32 word"

datatype rd_event = RdFail errno | RdEof | RdChunk "byte list"

datatype rd_result = RErr errno | RBytes "byte list"

datatype wr_event = WrFail errno | WrPart nat

datatype wr_result = WErr errno | WOk nat

text \<open>
  The exit status \<^verbatim>\<open>waitpid\<close> stores: \<^verbatim>\<open>WIFSIGNALED\<close> holds of
  \<open>Signaled n\<close>, and \<^verbatim>\<open>WTERMSIG\<close> is \<open>n\<close>.
\<close>

datatype wstatus = Exited int | Signaled int

datatype child_state = Running | Zombie wstatus | Gone

text \<open>
  One iteration of the loop of \<^verbatim>\<open>read()\<close> on the pty master calls
  \<^verbatim>\<open>select\<close> and then \<^verbatim>\<open>read\<close>: \<open>PtyIntr t\<close> is a \<^verbatim>\<open>select\<close>
  interrupted by a signal, after which the clock shows \<open>t\<close>; \<open>PtySelFail\<close> any other
  failure of \<^verbatim>\<open>select\<close>; \<open>PtyTimeout\<close> its timeout; \<open>PtyData\<close> bytes that are
  ready (none: the read returns 0); \<open>PtyReadFail\<close> a descriptor that is ready and whose
  read fails.
\<close>

datatype pty_event = PtyIntr int | PtySelFail errno | PtyTimeout | PtyData "byte list"
  | PtyReadFail errno

datatype effect = Close int | Shutdown_wr int | Free_ipc
  | Kill int int | Alarm nat | Sigaction_alrm | Signal_alrm_dfl | Signal_int_dfl
  | Waitpid int bool | Stderr "byte list" | Tcsetattr termios | Callback "byte list option"

record os =
  rx :: "rd_event list"
  sel :: "errno option list"
  wr :: "wr_event list"
  tx :: "byte list"
  mem :: "bool list"
  pty :: "pty_event list"
  clock :: int
  child :: child_state
  on_sigint :: "wstatus option"
  alarm_armed :: bool
  tcs :: "bool list"
  trace :: "effect list"

definition emit :: "effect \<Rightarrow> os \<Rightarrow> os" where
  "emit e s = s\<lparr>trace := trace s @ [e]\<rparr>"

text \<open>
  \<^verbatim>\<open>malloc\<close>: the next entry of \<open>mem\<close> says whether the allocation succeeds;
  once the script is used up every allocation does.
\<close>

definition malloc :: "os \<Rightarrow> bool \<times> os" where
  "malloc s = (case mem s of [] \<Rightarrow> (True, s) | b # m \<Rightarrow> (b, s\<lparr>mem := m\<rparr>))"

text \<open>
  \<^verbatim>\<open>read(fd, buf, n)\<close> on the non-blocking control socket.  A chunk is a run of
  bytes that has arrived; a read takes at most \<open>n\<close> bytes of the first chunk.  With
  nothing left in the script nothing is available, and the read fails with
  \<^verbatim>\<open>EAGAIN\<close>.
\<close>

definition sock_read :: "int \<Rightarrow> nat \<Rightarrow> os \<Rightarrow> rd_result \<times> os" where
  "sock_read fd n s =
     (if fd < 0 then (RErr EBADF, s)
      else case rx s of
          [] \<Rightarrow> (RErr EAGAIN, s)
        | RdFail e # r \<Rightarrow> (RErr e, s\<lparr>rx := r\<rparr>)
        | RdEof # r \<Rightarrow> (RBytes [], s\<lparr>rx := r\<rparr>)
        | RdChunk bs # r \<Rightarrow>
            (if length bs \<le> n then (RBytes bs, s\<lparr>rx := r\<rparr>)
             else (RBytes (take n bs), s\<lparr>rx := RdChunk (drop n bs) # r\<rparr>)))"

text \<open>
  \<^verbatim>\<open>write(fd, buf, n)\<close> on the control socket: the next entry of \<open>wr\<close> makes
  the write fail or accept only a part; once the script is used up every write is
  complete.
\<close>

definition sock_write :: "int \<Rightarrow> byte list \<Rightarrow> os \<Rightarrow> wr_result \<times> os" where
  "sock_write fd bs s =
     (if fd < 0 then (WErr EBADF, s)
      else case wr s of
          [] \<Rightarrow> (WOk (length bs), s\<lparr>tx := tx s @ bs\<rparr>)
        | WrFail e # r \<Rightarrow> (WErr e, s\<lparr>wr := r\<rparr>)
        | WrPart k # r \<Rightarrow>
            (WOk (min k (length bs)), s\<lparr>wr := r, tx := tx s @ take (min k (length bs)) bs\<rparr>))"

text \<open>
  \<^verbatim>\<open>select\<close> on the control socket without a timeout: the next entry of \<open>sel\<close>
  may make it fail; otherwise it waits until the socket is readable, which skips the
  moments at which nothing is available, and never returns when nothing more arrives.
\<close>

definition select_wait :: "os \<Rightarrow> fault + (rc \<times> os)" where
  "select_wait s =
     (case sel s of
        Some e # r \<Rightarrow> Inr (Fail e, s\<lparr>sel := r\<rparr>)
      | _ \<Rightarrow>
         (let r = dropWhile (\<lambda>e. e = RdFail EAGAIN) (rx s)
          in if r = [] then Inl Blocked else Inr (Ok, s\<lparr>sel := tl (sel s), rx := r\<rparr>)))"

fun ev_size :: "rd_event \<Rightarrow> nat" where
  "ev_size (RdChunk bs) = Suc (length bs)"
| "ev_size _ = 1"

definition rx_size :: "os \<Rightarrow> nat" where
  "rx_size s = sum_list (map ev_size (rx s))"

section \<open>Wire format\<close>

fun le_bytes :: "nat \<Rightarrow> nat \<Rightarrow> byte list" where
  "le_bytes 0 n = []"
| "le_bytes (Suc k) n = of_nat (n mod 256) # le_bytes k (n div 256)"

fun le_nat :: "byte list \<Rightarrow> nat" where
  "le_nat [] = 0"
| "le_nat (b # bs) = unat b + 256 * le_nat bs"


definition hdr_sz :: nat where
  "hdr_sz = 16"

definition hdr_bytes :: "64 word \<Rightarrow> 32 word \<Rightarrow> byte list" where
  "hdr_bytes sz tag = le_bytes 8 (unat sz) @ le_bytes 4 (unat tag) @ [0, 0, 0, 0]"

definition hdr_size_of :: "byte list \<Rightarrow> 64 word" where
  "hdr_size_of h = of_nat (le_nat (take 8 h))"

definition hdr_tag_of :: "byte list \<Rightarrow> 32 word" where
  "hdr_tag_of h = of_nat (le_nat (take 4 (drop 8 h)))"

text \<open>\<^verbatim>\<open>enum orch_ipc_tag\<close>.\<close>

definition IPC_NOXMIT :: "32 word" where "IPC_NOXMIT = 0"
definition IPC_RELEASE :: "32 word" where "IPC_RELEASE = 1"
definition IPC_ERROR :: "32 word" where "IPC_ERROR = 2"
definition IPC_TERMIOS_INQUIRY :: "32 word" where "IPC_TERMIOS_INQUIRY = 3"
definition IPC_TERMIOS_SET :: "32 word" where "IPC_TERMIOS_SET = 4"
definition IPC_TERMIOS_ACK :: "32 word" where "IPC_TERMIOS_ACK = 5"
definition IPC_LAST :: "32 word" where "IPC_LAST = 6"

lemmas ipc_tags = IPC_NOXMIT_def IPC_RELEASE_def IPC_ERROR_def IPC_TERMIOS_INQUIRY_def
  IPC_TERMIOS_SET_def IPC_TERMIOS_ACK_def IPC_LAST_def

section \<open>Control Channel: \<^verbatim>\<open>orch_ipc.c\<close>\<close>

text \<open>
  \<^verbatim>\<open>struct orch_ipc\<close>: the table of \<^verbatim>\<open>IPC_LAST - 1\<close> registrations (a handler
  with its cookie is a value of \<open>'h\<close>, no handler is \<open>None\<close>), the queue from
  \<^verbatim>\<open>head\<close> to \<^verbatim>\<open>tail\<close>, and the socket.
\<close>

record 'h orch_ipc =
  callbacks :: "'h option list"
  queue :: "orch_ipc_msg list"
  sockfd :: int

text \<open>
  The index of \<^verbatim>\<open>callbacks[tag - 1]\<close>, where it lies inside the table of
  \<^verbatim>\<open>IPC_LAST - 1\<close> entries.
\<close>

definition cb_index :: "32 word \<Rightarrow> nat option" where
  "cb_index tag = (if 0 < tag \<and> tag < IPC_LAST then Some (unat tag - 1) else None)"

definition cb_slot :: "'h orch_ipc \<Rightarrow> 32 word \<Rightarrow> nat option" where
  "cb_slot ipc tag =
     (case cb_index tag of
        None \<Rightarrow> None
      | Some i \<Rightarrow> (if i < length (callbacks ipc) then Some i else None))"

definition orch_ipc_open :: "int \<Rightarrow> os \<Rightarrow> 'h orch_ipc option \<times> os" where
  "orch_ipc_open fd s =
     (case malloc s of
        (False, s1) \<Rightarrow> (None, s1)
      | (True, s1) \<Rightarrow>
          (Some \<lparr>callbacks = replicate (unat IPC_LAST - 1) None, queue = [], sockfd = fd\<rparr>, s1))"

definition orch_ipc_okay :: "'h orch_ipc option \<Rightarrow> fault + bool" where
  "orch_ipc_okay p = (case p of None \<Rightarrow> Inl NullDeref | Some ipc \<Rightarrow> Inr (sockfd ipc \<ge> 0))"

definition IPC_MSG_PAYLOAD_SIZE :: "orch_ipc_msg \<Rightarrow> 64 word" where
  "IPC_MSG_PAYLOAD_SIZE msg = hdr_size msg - of_nat hdr_sz"

text \<open>
  \<^verbatim>\<open>orch_ipc_msg_alloc\<close> followed by the caller's copy of the payload into the
  zeroed buffer it returns.
\<close>

definition orch_ipc_msg_alloc :: "32 word \<Rightarrow> byte list \<Rightarrow> os \<Rightarrow> fault + (orch_ipc_msg option \<times> os)" where
  "orch_ipc_msg_alloc tag payload s =
     (if tag = IPC_NOXMIT then Inl AssertFail
      else case malloc s of
          (False, s1) \<Rightarrow> Inr (None, s1)
        | (True, s1) \<Rightarrow>
            Inr (Some \<lparr>hdr_size = of_nat (hdr_sz + length payload), hdr_tag = tag,
                       data = payload\<rparr>, s1))"

definition orch_ipc_msg_payload :: "orch_ipc_msg \<Rightarrow> byte list option \<times> 64 word" where
  "orch_ipc_msg_payload msg =
     (let datasz = IPC_MSG_PAYLOAD_SIZE msg
      in (if datasz = 0 then None else Some (data msg), datasz))"

definition orch_ipc_msg_tag :: "orch_ipc_msg \<Rightarrow> 32 word" where
  "orch_ipc_msg_tag msg = hdr_tag msg"

text \<open>
  \<^verbatim>\<open>orch_ipc_poll\<close>: the \<^verbatim>\<open>do ... while\<close> around \<^verbatim>\<open>select\<close>.  The argument
  \<open>eof_seen\<close> is \<open>None\<close> for a null pointer, and otherwise the value of the variable
  pointed to.
\<close>

function poll_loop :: "'h orch_ipc \<Rightarrow> bool option \<Rightarrow> os \<Rightarrow> fault + (rc \<times> bool option \<times> os)" where
  "poll_loop ipc eof_seen s =
     (if sockfd ipc = -1 then Inr (Ok, map_option (\<lambda>_. True) eof_seen, s)
      else case select_wait s of
          Inl f \<Rightarrow> Inl f
        | Inr (Fail e, s1) \<Rightarrow>
            (if e = EINTR then poll_loop ipc eof_seen s1 else Inr (Fail e, eof_seen, s1))
        | Inr (Ok, s1) \<Rightarrow> Inr (Ok, eof_seen, s1))"
  by pat_completeness auto
termination
  by (relation "measure (\<lambda>(ipc, e, s). length (sel s))")
     (auto simp: select_wait_def Let_def split: list.splits option.splits if_splits)

declare poll_loop.simps [simp del]

definition orch_ipc_poll :: "'h orch_ipc \<Rightarrow> bool option \<Rightarrow> os \<Rightarrow> fault + (rc \<times> bool option \<times> os)" where
  "orch_ipc_poll ipc eof_seen s = poll_loop ipc (map_option (\<lambda>_. False) eof_seen) s"

definition orch_ipc_wait :: "'h orch_ipc \<Rightarrow> bool option \<Rightarrow> os \<Rightarrow> fault + (rc \<times> bool option \<times> os)" where
  "orch_ipc_wait ipc eof_seen s =
     (if queue ipc \<noteq> [] then Inr (Ok, eof_seen, s) else orch_ipc_poll ipc eof_seen s)"

text \<open>The part of the environment that the control channel does not touch.\<close>

definition proc_part :: "os \<Rightarrow> child_state \<times> wstatus option \<times> bool \<times> pty_event list \<times> int \<times> bool list" where
  "proc_part s = (child s, on_sigint s, alarm_armed s, pty s, clock s, tcs s)"

lemma dropWhile_ev_size: "sum_list (map ev_size (dropWhile P xs)) \<le> sum_list (map ev_size xs)"
  by (induction xs) auto

lemma ev_size_pos: "0 < ev_size e"
  by (cases e) auto

lemma rx_size_0: "rx_size s = 0 \<longleftrightarrow> rx s = []"
  using ev_size_pos by (cases "rx s") (auto simp: rx_size_def)

lemma select_wait_Inr:
  assumes "select_wait s = Inr (r, s')"
  shows "rx_size s' \<le> rx_size s" and "wr s' = wr s" and "tx s' = tx s" and "mem s' = mem s"
    and "trace s' = trace s" and "length (sel s') \<le> length (sel s)"
    and "r = Ok \<Longrightarrow> rx s \<noteq> []" and "proc_part s' = proc_part s"
  using assms dropWhile_ev_size [of "\<lambda>e. e = RdFail EAGAIN" "rx s"]
  by (auto simp: select_wait_def rx_size_def proc_part_def Let_def
      split: list.splits option.splits if_splits)

lemma poll_loop_Inr:
  "poll_loop ipc e s = Inr (r, e', s') \<Longrightarrow>
     rx_size s' \<le> rx_size s \<and> wr s' = wr s \<and> tx s' = tx s \<and> mem s' = mem s \<and>
     trace s' = trace s \<and> proc_part s' = proc_part s \<and>
     (r = Ok \<longrightarrow> sockfd ipc \<noteq> -1 \<longrightarrow> rx s \<noteq> [])"
proof (induction ipc e s rule: poll_loop.induct)
  case (1 ipc eof_seen s)
  show ?case
  proof (cases "sockfd ipc = -1")
    case True
    with "1.prems" show ?thesis by (simp add: poll_loop.simps [of ipc eof_seen s])
  next
    case False
    show ?thesis
    proof (cases "select_wait s")
      case (Inl f)
      with False "1.prems" show ?thesis by (simp add: poll_loop.simps [of ipc eof_seen s])
    next
      case (Inr p)
      obtain q s1 where p: "p = (q, s1)" by (cases p)
      note sw = select_wait_Inr [OF Inr [unfolded p]]
      show ?thesis
      proof (cases "q = Fail EINTR")
        case True
        with False Inr p "1.prems" have rec: "poll_loop ipc eof_seen s1 = Inr (r, e', s')"
          by (simp add: poll_loop.simps [of ipc eof_seen s])
        have "q = Fail EINTR" by (rule True)
        from "1.IH" [OF False Inr [unfolded p] _ refl] True rec
        have ih: "rx_size s' \<le> rx_size s1 \<and> wr s' = wr s1 \<and> tx s' = tx s1 \<and> mem s' = mem s1 \<and>
          trace s' = trace s1 \<and> proc_part s' = proc_part s1 \<and>
          (r = Ok \<longrightarrow> sockfd ipc \<noteq> -1 \<longrightarrow> rx s1 \<noteq> [])"
          by simp
        have "rx s1 \<noteq> [] \<Longrightarrow> rx s \<noteq> []"
          using sw(1) rx_size_0 [of s] rx_size_0 [of s1] by auto
        with ih sw show ?thesis by auto
      next
        case False
        with \<open>sockfd ipc \<noteq> -1\<close> Inr p "1.prems" have "r = q" "s' = s1"
          by (auto simp: poll_loop.simps [of ipc eof_seen s] split: rc.splits if_splits)
        with sw show ?thesis by auto
      qed
    qed
  qed
qed

lemma sock_read_rx_size:
  "sock_read fd n s = (r, s') \<Longrightarrow> rx_size s' \<le> rx_size s"
  by (auto simp: sock_read_def rx_size_def split: if_splits list.splits rd_event.splits)

lemma sock_read_frame:
  "sock_read fd n s = (r, s') \<Longrightarrow>
     wr s' = wr s \<and> tx s' = tx s \<and> mem s' = mem s \<and> trace s' = trace s \<and> sel s' = sel s \<and>
     proc_part s' = proc_part s"
  by (auto simp: sock_read_def proc_part_def split: if_splits list.splits rd_event.splits)

lemma sock_read_bytes:
  "sock_read fd n s = (RBytes bs, s') \<Longrightarrow> bs \<noteq> [] \<Longrightarrow> rx_size s' < rx_size s"
  by (auto simp: sock_read_def rx_size_def split: if_splits list.splits rd_event.splits)

lemma sock_read_again:
  "sock_read fd n s = (RErr EAGAIN, s') \<Longrightarrow>
     0 \<le> fd \<and> (rx s = [] \<and> s' = s \<or> rx_size s' < rx_size s)"
  by (auto simp: sock_read_def rx_size_def split: if_splits list.splits rd_event.splits)

datatype payload_read = PDone "byte list" | PEof | PFail errno

text \<open>
  The inner loop of \<^verbatim>\<open>orch_ipc_drain\<close>, which reads the \<open>resid\<close> bytes of
  payload that are left, after \<open>acc\<close>.
\<close>

function drain_payload :: "'h orch_ipc \<Rightarrow> nat \<Rightarrow> byte list \<Rightarrow> os \<Rightarrow> fault + (payload_read \<times> os)" where
  "drain_payload ipc resid acc s =
     (if resid = 0 then Inr (PDone acc, s)
      else case sock_read (sockfd ipc) resid s of
          (RErr e, s1) \<Rightarrow>
            (if e \<noteq> EAGAIN then Inr (PFail e, s1)
             else case orch_ipc_poll ipc None s1 of
                 Inl f \<Rightarrow> Inl f
               | Inr (Fail e', _, s2) \<Rightarrow> Inr (PFail e', s2)
               | Inr (Ok, _, s2) \<Rightarrow> drain_payload ipc resid acc s2)
        | (RBytes bs, s1) \<Rightarrow>
            (if bs = [] then Inr (PEof, s1)
             else drain_payload ipc (resid - length bs) (acc @ bs) s1))"
  by pat_completeness auto
termination
proof (relation "measure (\<lambda>(ipc, resid, acc, s). rx_size s)", goal_cases)
  case 1
  show ?case by simp
next
  case (2 ipc resid acc s x y x1 b xa ya xb yb)
  from 2(2,3,4) have rd: "sock_read (sockfd ipc) resid s = (RErr EAGAIN, y)" by simp
  from 2(5,6,7,8) have "poll_loop ipc None y = Inr (Ok, xb, yb)"
    by (auto simp: orch_ipc_poll_def)
  from poll_loop_Inr [OF this] sock_read_again [OF rd]
  show ?case by auto
next
  case (3 ipc resid acc s x y x2)
  from 3(2,3) have "sock_read (sockfd ipc) resid s = (RBytes x2, y)" by simp
  from sock_read_bytes [OF this] 3(4) show ?case by simp
qed

declare drain_payload.simps [simp del]

definition hdr_fill :: "byte list option \<Rightarrow> byte list \<Rightarrow> byte list option" where
  "hdr_fill hdr bs =
     (if length bs = hdr_sz then Some bs
      else case hdr of None \<Rightarrow> None | Some old \<Rightarrow> Some (bs @ drop (length bs) old))"

lemma malloc_frame:
  "malloc s = (b, s') \<Longrightarrow>
     rx s' = rx s \<and> wr s' = wr s \<and> tx s' = tx s \<and> trace s' = trace s \<and> sel s' = sel s \<and>
     proc_part s' = proc_part s"
  by (auto simp: malloc_def proc_part_def split: list.splits)

lemma drain_payload_Inr:
  "drain_payload ipc resid acc s = Inr (r, s') \<Longrightarrow>
     rx_size s' \<le> rx_size s \<and> wr s' = wr s \<and> tx s' = tx s \<and> trace s' = trace s \<and>
     proc_part s' = proc_part s"
proof (induction ipc resid acc s rule: drain_payload.induct)
  case (1 ipc resid acc s)
  show ?case
  proof (cases "resid = 0")
    case True
    with "1.prems" show ?thesis by (simp add: drain_payload.simps [of ipc 0 acc s])
  next
    case False
    obtain x s1 where rd: "sock_read (sockfd ipc) resid s = (x, s1)"
      by (cases "sock_read (sockfd ipc) resid s")
    note f1 = sock_read_rx_size [OF rd] sock_read_frame [OF rd]
    show ?thesis
    proof (cases x)
      case (RErr e)
      show ?thesis
      proof (cases "e = EAGAIN")
        case ne: False
        with False rd RErr "1.prems" f1 show ?thesis
          by (auto simp: drain_payload.simps [of ipc resid acc s])
      next
        case True
        show ?thesis
        proof (cases "orch_ipc_poll ipc None s1")
          case (Inl f)
          with False rd RErr True "1.prems" show ?thesis
            by (simp add: drain_payload.simps [of ipc resid acc s])
        next
          case (Inr b)
          obtain q e2 s2 where b: "b = (q, e2, s2)" by (cases b)
          from Inr b have "poll_loop ipc None s1 = Inr (q, e2, s2)"
            by (simp add: orch_ipc_poll_def)
          note f2 = poll_loop_Inr [OF this]
          show ?thesis
          proof (cases q)
            case Ok
            with False rd RErr True Inr b "1.prems"
            have "drain_payload ipc resid acc s2 = Inr (r, s')"
              by (simp add: drain_payload.simps [of ipc resid acc s])
            from "1.IH"(1) [OF False rd [symmetric] RErr _ Inr b [symmetric] Ok refl this] True
            have "rx_size s' \<le> rx_size s2 \<and> wr s' = wr s2 \<and> tx s' = tx s2 \<and> trace s' = trace s2
                \<and> proc_part s' = proc_part s2"
              by simp
            with f1 f2 show ?thesis by auto
          next
            case (Fail e')
            with False rd RErr True Inr b "1.prems" f1 f2 show ?thesis
              by (auto simp: drain_payload.simps [of ipc resid acc s])
          qed
        qed
      qed
    next
      case (RBytes bs)
      show ?thesis
      proof (cases "bs = []")
        case True
        with False rd RBytes "1.prems" f1 show ?thesis
          by (auto simp: drain_payload.simps [of ipc resid acc s])
      next
        case ne: False
        with False rd RBytes "1.prems"
        have "drain_payload ipc (resid - length bs) (acc @ bs) s1 = Inr (r, s')"
          by (simp add: drain_payload.simps [of ipc resid acc s])
        from "1.IH"(2) [OF False rd [symmetric] RBytes ne this] f1
        show ?thesis by auto
      qed
    qed
  qed
qed

text \<open>
  The outer loop of \<^verbatim>\<open>orch_ipc_drain\<close>.  \<open>hdr\<close> is the local variable
  \<^verbatim>\<open>hdr\<close>: indeterminate on entry, and holding the previous header afterwards.  A
  read that returns fewer bytes than a header overwrites only its first bytes, and the
  code goes on with the whole variable.
\<close>

function drain_loop :: "byte list option \<Rightarrow> 'h orch_ipc \<Rightarrow> os \<Rightarrow> fault + (rc \<times> 'h orch_ipc \<times> os)" where
  "drain_loop hdr ipc s =
     (case sock_read (sockfd ipc) hdr_sz s of
        (RErr e, s1) \<Rightarrow>
          (if e = EAGAIN then Inr (Ok, ipc, s1) else Inr (Fail e, ipc, s1))
      | (RBytes bs, s1) \<Rightarrow>
          (if bs = [] then Inr (Ok, ipc\<lparr>sockfd := -1\<rparr>, emit (Close (sockfd ipc)) s1)
           else case hdr_fill hdr bs of
               None \<Rightarrow> Inl Indeterminate
             | Some h \<Rightarrow>
                 (if hdr_size_of h < of_nat hdr_sz \<or> hdr_tag_of h = IPC_NOXMIT
                  then Inr (Fail EINVAL, ipc, s1)
                  else case malloc s1 of
                      (False, s2) \<Rightarrow> Inr (Fail ENOMEM, ipc, s2)
                    | (True, s2) \<Rightarrow>
                        (case malloc s2 of
                           (False, s3) \<Rightarrow> Inr (Fail ENOMEM, ipc, s3)
                         | (True, s3) \<Rightarrow>
                             (if 2 ^ 64 \<le> unat (hdr_size_of h) + hdr_sz then Inl HeapOverflow
                              else case drain_payload ipc (unat (hdr_size_of h) - hdr_sz) [] s3 of
                                  Inl f \<Rightarrow> Inl f
                                | Inr (PFail e, s4) \<Rightarrow> Inr (Fail e, ipc, s4)
                                | Inr (PEof, s4) \<Rightarrow>
                                    Inr (Ok, ipc\<lparr>sockfd := -1\<rparr>, emit (Close (sockfd ipc)) s4)
                                | Inr (PDone d, s4) \<Rightarrow>
                                    drain_loop (Some h)
                                      (ipc\<lparr>queue := queue ipc @
                                         [\<lparr>hdr_size = hdr_size_of h, hdr_tag = hdr_tag_of h,
                                           data = d\<rparr>]\<rparr>) s4)))))"
  by pat_completeness auto
termination
proof (relation "measure (\<lambda>(hdr, ipc, s). rx_size s)", goal_cases)
  case 1
  show ?case by simp
next
  case (2 hdr ipc s x y x2 x2a xa ya xb yb b xc yc x1)
  from 2(1,2) have "sock_read (sockfd ipc) hdr_sz s = (RBytes x2, y)" by simp
  from sock_read_bytes [OF this 2(3)] have a: "rx_size y < rx_size s" .
  from 2(6) malloc_frame [of y xa ya] have b: "rx_size ya = rx_size y"
    by (simp add: rx_size_def)
  from 2(8) malloc_frame [of ya xb yb] have c: "rx_size yb = rx_size ya"
    by (simp add: rx_size_def)
  from 2(11,12) have "drain_payload ipc (unat (hdr_size_of x2a) - hdr_sz) [] yb = Inr (xc, yc)"
    by simp
  from drain_payload_Inr [OF this] a b c show ?case by simp
qed

declare drain_loop.simps [simp del]

text \<open>\<^verbatim>\<open>orch_ipc_drain\<close>.\<close>

definition orch_ipc_drain :: "'h orch_ipc \<Rightarrow> os \<Rightarrow> fault + (rc \<times> 'h orch_ipc \<times> os)" where
  "orch_ipc_drain ipc s =
     (case orch_ipc_okay (Some ipc) of
        Inl f \<Rightarrow> Inl f
      | Inr okay \<Rightarrow> (if \<not> okay then Inr (Ok, ipc, s) else drain_loop None ipc s))"

lemma proc_part_update [simp]:
  "proc_part (emit e s) = proc_part s" "proc_part (s\<lparr>trace := t\<rparr>) = proc_part s"
  "proc_part (s\<lparr>rx := r\<rparr>) = proc_part s" "proc_part (s\<lparr>sel := l\<rparr>) = proc_part s"
  "proc_part (s\<lparr>wr := w\<rparr>) = proc_part s" "proc_part (s\<lparr>tx := x\<rparr>) = proc_part s"
  "proc_part (s\<lparr>mem := m\<rparr>) = proc_part s"
  by (simp_all add: proc_part_def emit_def)

lemma drain_loop_Inr:
  "drain_loop hdr ipc s = Inr (r, ipc', s') \<Longrightarrow>
     wr s' = wr s \<and> tx s' = tx s \<and> callbacks ipc' = callbacks ipc \<and>
     (\<exists>ms. queue ipc' = queue ipc @ ms) \<and> proc_part s' = proc_part s \<and>
     (sockfd ipc' = sockfd ipc \<and> trace s' = trace s \<or>
      sockfd ipc' = -1 \<and> trace s' = trace s @ [Close (sockfd ipc)])"
proof (induction hdr ipc s rule: drain_loop.induct)
  case (1 hdr ipc s)
  obtain x s1 where rd: "sock_read (sockfd ipc) hdr_sz s = (x, s1)"
    by (cases "sock_read (sockfd ipc) hdr_sz s")
  note f1 = sock_read_frame [OF rd]
  show ?case
  proof (cases x)
    case (RErr e)
    with rd "1.prems" f1 show ?thesis
      by (auto simp: drain_loop.simps [of hdr ipc s] split: if_splits)
  next
    case (RBytes bs)
    show ?thesis
    proof (cases "bs = []")
      case True
      with rd RBytes "1.prems" f1 show ?thesis
        by (auto simp: drain_loop.simps [of hdr ipc s] emit_def)
    next
      case ne: False
      show ?thesis
      proof (cases "hdr_fill hdr bs")
        case None
        with rd RBytes ne "1.prems" show ?thesis
          by (simp add: drain_loop.simps [of hdr ipc s])
      next
        case (Some h)
        show ?thesis
        proof (cases "hdr_size_of h < of_nat hdr_sz \<or> hdr_tag_of h = IPC_NOXMIT")
          case True
          with rd RBytes ne Some "1.prems" f1 show ?thesis
            by (auto simp: drain_loop.simps [of hdr ipc s])
        next
          case valid: False
          obtain b2 s2 where m1: "malloc s1 = (b2, s2)" by (cases "malloc s1")
          obtain b3 s3 where m2: "malloc s2 = (b3, s3)" by (cases "malloc s2")
          note f2 = malloc_frame [OF m1] malloc_frame [OF m2]
          show ?thesis
          proof (cases "b2 \<and> b3 \<and> \<not> 2 ^ 64 \<le> unat (hdr_size_of h) + hdr_sz")
            case False
            with rd RBytes ne Some valid m1 m2 "1.prems" f1 f2 show ?thesis
              by (auto simp: drain_loop.simps [of hdr ipc s] split: if_splits bool.splits)
          next
            case True
            show ?thesis
            proof (cases "drain_payload ipc (unat (hdr_size_of h) - hdr_sz) [] s3")
              case (Inl f)
              with rd RBytes ne Some valid m1 m2 True "1.prems" show ?thesis
                by (simp add: drain_loop.simps [of hdr ipc s])
            next
              case (Inr b)
              obtain q s4 where b: "b = (q, s4)" by (cases b)
              note f3 = drain_payload_Inr [OF Inr [unfolded b]]
              show ?thesis
              proof (cases q)
                case (PDone d)
                with rd RBytes ne Some valid m1 m2 True Inr b "1.prems"
                have rec: "drain_loop (Some h)
                    (ipc\<lparr>queue := queue ipc @
                       [\<lparr>hdr_size = hdr_size_of h, hdr_tag = hdr_tag_of h, data = d\<rparr>]\<rparr>) s4
                    = Inr (r, ipc', s')"
                  by (simp add: drain_loop.simps [of hdr ipc s])
                from True have t1: "b2 = True" and t2: "b3 = True"
                  and t3: "\<not> 2 ^ 64 \<le> unat (hdr_size_of h) + hdr_sz" by auto
                from "1.IH" [OF rd [symmetric] RBytes ne Some valid m1 [symmetric] t1
                    m2 [symmetric] t2 t3 Inr b [symmetric] PDone rec]
                have "wr s' = wr s4 \<and> tx s' = tx s4 \<and>
                  callbacks ipc' = callbacks (ipc\<lparr>queue := queue ipc @
                       [\<lparr>hdr_size = hdr_size_of h, hdr_tag = hdr_tag_of h, data = d\<rparr>]\<rparr>) \<and>
                  (\<exists>ms. queue ipc' = queue (ipc\<lparr>queue := queue ipc @
                       [\<lparr>hdr_size = hdr_size_of h, hdr_tag = hdr_tag_of h, data = d\<rparr>]\<rparr>) @ ms) \<and>
                  proc_part s' = proc_part s4 \<and>
                  (sockfd ipc' = sockfd (ipc\<lparr>queue := queue ipc @
                       [\<lparr>hdr_size = hdr_size_of h, hdr_tag = hdr_tag_of h, data = d\<rparr>]\<rparr>) \<and>
                     trace s' = trace s4 \<or>
                   sockfd ipc' = -1 \<and> trace s' = trace s4 @ [Close (sockfd (ipc\<lparr>queue := queue ipc @
                       [\<lparr>hdr_size = hdr_size_of h, hdr_tag = hdr_tag_of h, data = d\<rparr>]\<rparr>))])" .
                with f1 f2 f3 show ?thesis by auto
              next
                case PEof
                with rd RBytes ne Some valid m1 m2 True Inr b "1.prems" f1 f2 f3 show ?thesis
                  by (auto simp: drain_loop.simps [of hdr ipc s] emit_def)
              next
                case (PFail e)
                with rd RBytes ne Some valid m1 m2 True Inr b "1.prems" f1 f2 f3 show ?thesis
                  by (auto simp: drain_loop.simps [of hdr ipc s])
              qed
            qed
          qed
        qed
      qed
    qed
  qed
qed

lemma orch_ipc_drain_Inr:
  "orch_ipc_drain ipc s = Inr (r, ipc', s') \<Longrightarrow>
     wr s' = wr s \<and> tx s' = tx s \<and> callbacks ipc' = callbacks ipc \<and>
     (\<exists>ms. queue ipc' = queue ipc @ ms) \<and> proc_part s' = proc_part s \<and>
     (sockfd ipc' = sockfd ipc \<and> trace s' = trace s \<or>
      sockfd ipc' = -1 \<and> trace s' = trace s @ [Close (sockfd ipc)])"
  by (auto simp: orch_ipc_drain_def orch_ipc_okay_def dest: drain_loop_Inr split: if_splits)

text \<open>The loop of \<^verbatim>\<open>orch_ipc_send\<close> that writes the payload.\<close>

function send_payload :: "int \<Rightarrow> byte list \<Rightarrow> os \<Rightarrow> rc \<times> os" where
  "send_payload fd bs s =
     (if bs = [] then (Ok, s)
      else case sock_write fd bs s of
          (WErr e, s1) \<Rightarrow> (if e \<noteq> EAGAIN then (Fail e, s1) else send_payload fd bs s1)
        | (WOk k, s1) \<Rightarrow> send_payload fd (drop k bs) s1)"
  by pat_completeness auto
termination
  by (relation "measure (\<lambda>(fd, bs, s). length (wr s) + length bs)")
     (auto simp: sock_write_def split: if_splits list.splits wr_event.splits)

declare send_payload.simps [simp del]

text \<open>
  \<^verbatim>\<open>orch_ipc_send\<close>.  The header goes out in one \<^verbatim>\<open>write\<close>; the payload is
  the \<^verbatim>\<open>IPC_MSG_PAYLOAD_SIZE\<close> bytes that follow it in memory.
\<close>

function orch_ipc_send :: "'h orch_ipc \<Rightarrow> orch_ipc_msg \<Rightarrow> os \<Rightarrow> fault + (rc \<times> 'h orch_ipc \<times> os)" where
  "orch_ipc_send ipc msg s =
     (case orch_ipc_drain ipc s of
        Inl f \<Rightarrow> Inl f
      | Inr (Fail e, ipc1, s1) \<Rightarrow> Inr (Fail e, ipc1, s1)
      | Inr (Ok, ipc1, s1) \<Rightarrow>
          (case sock_write (sockfd ipc1) (hdr_bytes (hdr_size msg) (hdr_tag msg)) s1 of
             (WErr e, s2) \<Rightarrow>
               (if e \<noteq> EAGAIN then Inr (Fail e, ipc1, s2) else orch_ipc_send ipc1 msg s2)
           | (WOk k, s2) \<Rightarrow>
               (if k < hdr_sz then Inr (Fail EIO, ipc1, s2)
                else if length (data msg) < unat (IPC_MSG_PAYLOAD_SIZE msg) then Inl OutOfBounds
                else case send_payload (sockfd ipc1)
                            (take (unat (IPC_MSG_PAYLOAD_SIZE msg)) (data msg)) s2 of
                    (r, s3) \<Rightarrow> Inr (r, ipc1, s3))))"
  by pat_completeness auto
termination
proof (relation "measure (\<lambda>(ipc, msg, s). length (wr s))", goal_cases)
  case 1
  show ?case by simp
next
  case (2 ipc msg s b x y xa ya xb yb x1)
  from 2(1,2,3,4) have "orch_ipc_drain ipc s = Inr (Ok, xa, ya)" by simp
  from orch_ipc_drain_Inr [OF this] have "wr ya = wr s" by simp
  with 2(5,6,7) show ?case
    by (auto simp: sock_write_def split: if_splits list.splits wr_event.splits)
qed

declare orch_ipc_send.simps [simp del]

definition orch_ipc_send_nodata :: "'h orch_ipc \<Rightarrow> 32 word \<Rightarrow> os \<Rightarrow> fault + (rc \<times> 'h orch_ipc \<times> os)" where
  "orch_ipc_send_nodata ipc tag s =
     orch_ipc_send ipc \<lparr>hdr_size = of_nat hdr_sz, hdr_tag = tag, data = []\<rparr> s"

text \<open>
  \<^verbatim>\<open>orch_ipc_register\<close>: stores the handler and its cookie in the slot of the
  tag, whatever the slot held, and returns 0.  \<open>None\<close> is the null handler.
\<close>

definition orch_ipc_register :: "'h orch_ipc \<Rightarrow> 32 word \<Rightarrow> 'h option \<Rightarrow> fault + (rc \<times> 'h orch_ipc)" where
  "orch_ipc_register ipc tag handler =
     (case cb_slot ipc tag of
        None \<Rightarrow> Inl OutOfBounds
      | Some i \<Rightarrow> Inr (Ok, ipc\<lparr>callbacks := (callbacks ipc)[i := handler]\<rparr>))"

text \<open>
  \<^verbatim>\<open>orch_ipc_pop\<close>.  \<open>run h ipc msg w s\<close> is the call of the handler \<open>h\<close>: it may
  use the channel, change the state \<open>w\<close> its cookie points into, and fail.  \<open>want\<close>
  says that \<^verbatim>\<open>omsg\<close> is not null.  The result is \<open>None\<close> when the loop does not
  end.
\<close>

partial_function (option) orch_ipc_pop ::
  "('h \<Rightarrow> 'h orch_ipc \<Rightarrow> orch_ipc_msg \<Rightarrow> 'w \<Rightarrow> os \<Rightarrow> fault + (rc \<times> 'h orch_ipc \<times> 'w \<times> os))
   \<Rightarrow> bool \<Rightarrow> 'h orch_ipc \<Rightarrow> 'w \<Rightarrow> os
   \<Rightarrow> (fault + (rc \<times> orch_ipc_msg option \<times> 'h orch_ipc \<times> 'w \<times> os)) option" where
  "orch_ipc_pop run want ipc w s =
     (case queue ipc of
        [] \<Rightarrow> Some (Inr (Ok, None, ipc, w, s))
      | msg # rest \<Rightarrow>
          (case cb_slot ipc (hdr_tag msg) of
             None \<Rightarrow> Some (Inl OutOfBounds)
           | Some i \<Rightarrow>
               (case callbacks ipc ! i of
                  Some h \<Rightarrow>
                    (case run h (ipc\<lparr>queue := rest\<rparr>) msg w s of
                       Inl f \<Rightarrow> Some (Inl f)
                     | Inr (Fail e, ipc1, w1, s1) \<Rightarrow> Some (Inr (Fail e, None, ipc1, w1, s1))
                     | Inr (Ok, ipc1, w1, s1) \<Rightarrow> orch_ipc_pop run want ipc1 w1 s1)
                | None \<Rightarrow>
                    (if \<not> want then orch_ipc_pop run want (ipc\<lparr>queue := rest\<rparr>) w s
                     else Some (Inr (Ok, Some msg, ipc\<lparr>queue := rest\<rparr>, w, s))))))"

text \<open>\<^verbatim>\<open>orch_ipc_recv\<close>.\<close>

definition orch_ipc_recv ::
  "('h \<Rightarrow> 'h orch_ipc \<Rightarrow> orch_ipc_msg \<Rightarrow> 'w \<Rightarrow> os \<Rightarrow> fault + (rc \<times> 'h orch_ipc \<times> 'w \<times> os))
   \<Rightarrow> 'h orch_ipc \<Rightarrow> 'w \<Rightarrow> os
   \<Rightarrow> (fault + (rc \<times> orch_ipc_msg option \<times> 'h orch_ipc \<times> 'w \<times> os)) option" where
  "orch_ipc_recv run ipc w s =
     (case orch_ipc_drain ipc s of
        Inl f \<Rightarrow> Some (Inl f)
      | Inr (Fail e, ipc1, s1) \<Rightarrow> Some (Inr (Fail e, None, ipc1, w, s1))
      | Inr (Ok, ipc1, s1) \<Rightarrow> orch_ipc_pop run True ipc1 w s1)"

text \<open>
  \<^verbatim>\<open>orch_ipc_close\<close>: the loop that drains the socket until the peer has closed
  it, then the function itself, on a pointer that may be null.
\<close>

partial_function (option) close_loop ::
  "'h orch_ipc \<Rightarrow> rc \<Rightarrow> os \<Rightarrow> (fault + (rc \<times> 'h orch_ipc \<times> os)) option" where
  "close_loop ipc error s =
     (if sockfd ipc \<noteq> -1 \<and> error = Ok
      then case orch_ipc_wait ipc None s of
          Inl f \<Rightarrow> Some (Inl f)
        | Inr (_, _, s1) \<Rightarrow>
            (case orch_ipc_drain ipc s1 of
               Inl f \<Rightarrow> Some (Inl f)
             | Inr (e, ipc2, s2) \<Rightarrow> close_loop ipc2 e s2)
      else Some (Inr (error, ipc, s)))"

definition orch_ipc_close ::
  "('h \<Rightarrow> 'h orch_ipc \<Rightarrow> orch_ipc_msg \<Rightarrow> 'w \<Rightarrow> os \<Rightarrow> fault + (rc \<times> 'h orch_ipc \<times> 'w \<times> os))
   \<Rightarrow> 'h orch_ipc option \<Rightarrow> 'w \<Rightarrow> os \<Rightarrow> (fault + (rc \<times> 'w \<times> os)) option" where
  "orch_ipc_close run p w s =
     (case p of
        None \<Rightarrow> Some (Inr (Ok, w, s))
      | Some ipc \<Rightarrow>
          (case (if sockfd ipc \<noteq> -1
                 then (case close_loop ipc Ok (emit (Shutdown_wr (sockfd ipc)) s) of
                         None \<Rightarrow> None
                       | Some (Inl f) \<Rightarrow> Some (Inl f)
                       | Some (Inr (_, ipc1, s1)) \<Rightarrow>
                           Some (Inr (if sockfd ipc1 \<noteq> -1
                                      then (ipc1\<lparr>sockfd := -1\<rparr>, emit (Close (sockfd ipc1)) s1)
                                      else (ipc1, s1))))
                 else Some (Inr (ipc, s))) of
             None \<Rightarrow> None
           | Some (Inl f) \<Rightarrow> Some (Inl f)
           | Some (Inr (ipc2, s2)) \<Rightarrow>
               (case orch_ipc_pop run False ipc2 w s2 of
                  None \<Rightarrow> None
                | Some (Inl f) \<Rightarrow> Some (Inl f)
                | Some (Inr (error, _, ipc3, w3, s3)) \<Rightarrow>
                    (if queue ipc3 \<noteq> [] then Some (Inl AssertFail)
                     else Some (Inr (error, w3, emit Free_ipc s3))))))"

section \<open>Process handle: \<^verbatim>\<open>orch_lua.c\<close>\<close>

text \<open>
  \<^verbatim>\<open>struct orch_term\<close> and \<^verbatim>\<open>struct orch_process\<close>.  The fields of the
  process handle carry the prefix \<open>p_\<close>; a pointer is an option, \<open>None\<close> being
  the null pointer.  The two handlers the parent registers are
  \<^verbatim>\<open>orchlua_child_error\<close>, whose cookie is the process handle, and
  \<^verbatim>\<open>orchlua_process_term_set\<close>, whose cookie is the local variable
  \<^verbatim>\<open>sterm\<close> of \<^verbatim>\<open>orchlua_process_term\<close>.
\<close>

record orch_term =
  tterm :: termios
  initialized :: bool

datatype parent_handler = H_child_error | H_process_term_set

record orch_process =
  p_term :: "orch_term option"
  p_ipc :: "parent_handler orch_ipc option"
  p_pid :: int
  p_status :: wstatus
  p_termctl :: int
  p_released :: bool
  p_eof :: bool
  p_error :: bool

text \<open>
  What a binding hands back to the script: its values, or fail and a message.
  \<open>Strerror e\<close> is \<^verbatim>\<open>strerror\<close> of the \<^verbatim>\<open>errno\<close> the failed call has
  set; \<open>Strerror_errno\<close> is \<^verbatim>\<open>strerror(errno)\<close> where \<^verbatim>\<open>errno\<close> is read
  only after other calls have run, so that the text is that of whichever call failed
  last.
\<close>

datatype failure = Killed_with_signal int | Could_not_kill | Already_released
  | Term_already_generated | Unexpected_message_type "32 word" | Unknown_unexpected_message
  | Strerror errno | Strerror_errno | Invalid_timeout | Not_a_table | Flag_not_numeric string | Cc_not_a_table
  | Cc_expected_number string | Cc_expected_string string | Cc_malformed string string
  | Cc_out_of_bounds string char

datatype 'a lres = LRet 'a | LFail failure

text \<open>
  The image of \<^verbatim>\<open>struct termios\<close> in a payload: the four flag words, the 20
  control characters and the two speeds, 44 bytes.
\<close>

definition NCCS :: nat where
  "NCCS = 20"

definition termios_sz :: nat where
  "termios_sz = 44"

definition termios_bytes :: "termios \<Rightarrow> byte list" where
  "termios_bytes t =
     le_bytes 4 (unat (c_iflag t)) @ le_bytes 4 (unat (c_oflag t)) @
     le_bytes 4 (unat (c_cflag t)) @ le_bytes 4 (unat (c_lflag t)) @
     take NCCS (c_cc t @ replicate NCCS 0) @
     le_bytes 4 (unat (c_ispeed t)) @ le_bytes 4 (unat (c_ospeed t))"

definition termios_parse :: "byte list \<Rightarrow> termios" where
  "termios_parse bs =
     \<lparr>c_iflag = of_nat (le_nat (take 4 bs)),
      c_oflag = of_nat (le_nat (take 4 (drop 4 bs))),
      c_cflag = of_nat (le_nat (take 4 (drop 8 bs))),
      c_lflag = of_nat (le_nat (take 4 (drop 12 bs))),
      c_cc = take NCCS (drop 16 bs),
      c_ispeed = of_nat (le_nat (take 4 (drop 36 bs))),
      c_ospeed = of_nat (le_nat (take 4 (drop 40 bs)))\<rparr>"

text \<open>
  \<^verbatim>\<open>orchlua_child_error\<close>.  With a payload it prints
  \<^verbatim>\<open>"CHILD ERROR: %.*s\n"\<close> with the precision \<^verbatim>\<open>(int)datasz\<close>: the bytes of
  the payload up to the first NUL, and no more than the precision when that is not
  negative.  Where neither bound falls inside the payload the conversion reads past it.
\<close>

definition bytes_of :: "string \<Rightarrow> byte list" where
  "bytes_of str = map (\<lambda>c. of_nat (of_char c)) str"

definition orchlua_child_error ::
  "orch_ipc_msg \<Rightarrow> orch_process \<Rightarrow> os \<Rightarrow> fault + (rc \<times> orch_process \<times> os)" where
  "orchlua_child_error msg proc s =
     (case orch_ipc_msg_payload msg of
        (childstr, datasz) \<Rightarrow>
          (if datasz \<noteq> 0
           then (let prec = sint (ucast datasz :: 32 word);
                     str = (if 0 \<le> prec then take (nat prec) (data msg) else data msg)
                 in if 0 \<notin> set str \<and> (prec < 0 \<or> length (data msg) < nat prec)
                    then Inl OutOfBounds
                    else Inr (Ok, proc\<lparr>p_error := True\<rparr>,
                              emit (Stderr (bytes_of ''CHILD ERROR: '' @
                                      takeWhile (\<lambda>b. b \<noteq> 0) str @ [10])) s))
           else Inr (Ok, proc\<lparr>p_error := True\<rparr>, s)))"

definition orchlua_process_term_set :: "orch_ipc_msg \<Rightarrow> orch_term \<Rightarrow> rc \<times> orch_term" where
  "orchlua_process_term_set msg trm =
     (case orch_ipc_msg_payload msg of
        (None, datasz) \<Rightarrow> (Fail EINVAL, trm)
      | (Some child_termios, datasz) \<Rightarrow>
          (if datasz \<noteq> of_nat termios_sz then (Fail EINVAL, trm)
           else (Ok, trm\<lparr>tterm := termios_parse child_termios, initialized := True\<rparr>)))"

text \<open>
  The call of a handler of the parent.  The state the cookies point into is the process
  handle together with \<^verbatim>\<open>sterm\<close>, where that variable is in scope.
\<close>

definition run_parent ::
  "parent_handler \<Rightarrow> parent_handler orch_ipc \<Rightarrow> orch_ipc_msg \<Rightarrow> orch_process \<times> orch_term option
   \<Rightarrow> os \<Rightarrow> fault + (rc \<times> parent_handler orch_ipc \<times> (orch_process \<times> orch_term option) \<times> os)" where
  "run_parent h c msg w s =
     (case h of
        H_child_error \<Rightarrow>
          (case orchlua_child_error msg (fst w) s of
             Inl f \<Rightarrow> Inl f
           | Inr (r, proc, s1) \<Rightarrow> Inr (r, c, (proc, snd w), s1))
      | H_process_term_set \<Rightarrow>
          (case snd w of
             None \<Rightarrow> Inl NullDeref
           | Some trm \<Rightarrow>
               (case orchlua_process_term_set msg trm of
                  (r, trm1) \<Rightarrow> Inr (r, c, (fst w, Some trm1), s))))"

text \<open>
  Signals and \<^verbatim>\<open>waitpid\<close>.  The child reacts to \<^verbatim>\<open>SIGINT\<close> as \<open>on_sigint\<close>
  says (\<open>None\<close>: it goes on running), and \<^verbatim>\<open>SIGKILL\<close> ends it.  A blocking
  \<^verbatim>\<open>waitpid\<close> on a running child is interrupted by the alarm when one is armed,
  and does not return otherwise.
\<close>

definition SIGINT :: int where "SIGINT = 2"
definition SIGKILL :: int where "SIGKILL = 9"

definition sys_kill :: "int \<Rightarrow> int \<Rightarrow> os \<Rightarrow> os" where
  "sys_kill p sig s =
     (let s1 = emit (Kill p sig) s
      in if child s1 \<noteq> Running then s1
         else if sig = SIGKILL then s1\<lparr>child := Zombie (Signaled SIGKILL)\<rparr>
         else if sig = SIGINT then
           (case on_sigint s1 of None \<Rightarrow> s1 | Some st \<Rightarrow> s1\<lparr>child := Zombie st\<rparr>)
         else s1)"

definition sys_alarm :: "nat \<Rightarrow> os \<Rightarrow> os" where
  "sys_alarm n s = (emit (Alarm n) s)\<lparr>alarm_armed := (n \<noteq> 0)\<rparr>"

text \<open>The result of \<^verbatim>\<open>waitpid\<close>: the value returned and the status stored.\<close>

definition waitpid_nohang :: "int \<Rightarrow> os \<Rightarrow> (int \<times> wstatus option) \<times> os" where
  "waitpid_nohang p s =
     (let s1 = emit (Waitpid p True) s
      in case child s1 of
          Zombie st \<Rightarrow> ((p, Some st), s1\<lparr>child := Gone\<rparr>)
        | Running \<Rightarrow> ((0, None), s1)
        | Gone \<Rightarrow> ((-1, None), s1))"

definition waitpid_block :: "int \<Rightarrow> os \<Rightarrow> fault + ((int \<times> wstatus option) \<times> os)" where
  "waitpid_block p s =
     (let s1 = emit (Waitpid p False) s
      in case child s1 of
          Zombie st \<Rightarrow> Inr ((p, Some st), s1\<lparr>child := Gone\<rparr>)
        | Running \<Rightarrow>
            (if alarm_armed s1 then Inr ((-1, None), s1\<lparr>alarm_armed := False\<rparr>)
             else Inl Blocked)
        | Gone \<Rightarrow> Inr ((-1, None), s1))"

text \<open>
  \<^verbatim>\<open>orchlua_process_killed\<close>: the result, the signal stored through
  \<^verbatim>\<open>signo\<close>, and the handle.
\<close>

definition orchlua_process_killed ::
  "orch_process \<Rightarrow> os \<Rightarrow> fault + (bool \<times> int \<times> orch_process \<times> os)" where
  "orchlua_process_killed self s =
     (if p_pid self = 0 then Inl AssertFail
      else case waitpid_nohang (p_pid self) s of
          ((wret, st), s1) \<Rightarrow>
            (if wret \<noteq> p_pid self then Inr (False, 0, self, s1)
             else let self1 = (case st of None \<Rightarrow> self | Some x \<Rightarrow> self\<lparr>p_status := x\<rparr>)
                  in Inr (True,
                          (case p_status self1 of Signaled n \<Rightarrow> n | Exited _ \<Rightarrow> 0),
                          self1\<lparr>p_pid := 0\<rparr>, s1)))"

text \<open>
  The part of \<^verbatim>\<open>orchlua_process_close\<close> from the label \<^verbatim>\<open>again\<close> on:
  \<^verbatim>\<open>kill\<close>, \<^verbatim>\<open>waitpid\<close>, \<^verbatim>\<open>alarm(0)\<close>, and once more with
  \<^verbatim>\<open>SIGKILL\<close> when that did not reap the child.
\<close>

function kill_again :: "int \<Rightarrow> bool \<Rightarrow> orch_process \<Rightarrow> os \<Rightarrow> fault + (bool \<times> orch_process \<times> os)" where
  "kill_again sig failed self s =
     (case waitpid_block (p_pid self) (sys_kill (p_pid self) sig s) of
        Inl f \<Rightarrow> Inl f
      | Inr ((wret, st), s1) \<Rightarrow>
          (let self1 = (case st of None \<Rightarrow> self | Some x \<Rightarrow> self\<lparr>p_status := x\<rparr>);
               s2 = sys_alarm 0 s1
           in if wret \<noteq> p_pid self
              then (if sig \<noteq> SIGKILL then kill_again SIGKILL True self1 s2
                    else Inr (True, self1, s2))
              else Inr (failed, self1, s2)))"
  by pat_completeness auto
termination
  by (relation "measure (\<lambda>(sig, failed, self, s). if sig = SIGKILL then 0 else 1)") auto

declare kill_again.simps [simp del]

text \<open>\<^verbatim>\<open>orchlua_process_close\<close>, which is also the \<^verbatim>\<open>__gc\<close> metamethod.\<close>

definition orchlua_process_close ::
  "orch_process \<Rightarrow> os \<Rightarrow> (fault + (unit lres \<times> orch_process \<times> os)) option" where
  "orchlua_process_close self s =
     (case (if p_pid self \<noteq> 0
            then (case orchlua_process_killed self s of
                    Inl f \<Rightarrow> Inl f
                  | Inr (killed, sig, self1, s1) \<Rightarrow>
                      Inr (if killed \<and> sig \<noteq> 0 then Some sig else None, self1, s1))
            else Inr (None, self, s)) of
        Inl f \<Rightarrow> Some (Inl f)
      | Inr (Some sig, self1, s1) \<Rightarrow> Some (Inr (LFail (Killed_with_signal sig), self1, s1))
      | Inr (None, self1, s1) \<Rightarrow>
          (case (if p_pid self1 \<noteq> 0
                 then (case kill_again SIGINT False self1
                              (sys_alarm 5 (emit Sigaction_alrm s1)) of
                         Inl f \<Rightarrow> Inl f
                       | Inr (failed, self2, s2) \<Rightarrow>
                           Inr (failed, self2\<lparr>p_pid := 0\<rparr>, emit Signal_alrm_dfl s2))
                 else Inr (False, self1, s1)) of
             Inl f \<Rightarrow> Some (Inl f)
           | Inr (failed, self2, s2) \<Rightarrow>
               (case orch_ipc_close run_parent (p_ipc self2) (self2, None) s2 of
                  None \<Rightarrow> None
                | Some (Inl f) \<Rightarrow> Some (Inl f)
                | Some (Inr (_, w, s3)) \<Rightarrow>
                    (let self3 = (fst w)\<lparr>p_ipc := None\<rparr>;
                         s4 = (if p_termctl self3 \<noteq> -1 then emit (Close (p_termctl self3)) s3
                               else s3);
                         self4 = self3\<lparr>p_termctl := -1\<rparr>
                     in if failed then Some (Inr (LFail Could_not_kill, self4, s4))
                        else Some (Inr (LRet (), self4, s4))))))"

text \<open>
  \<^verbatim>\<open>select\<close> and \<^verbatim>\<open>read\<close> on the pty master, \<^verbatim>\<open>LINE_MAX\<close> bytes at
  most at a time.
\<close>

definition LINE_MAX :: nat where
  "LINE_MAX = 2048"

fun pty_ev_size :: "pty_event \<Rightarrow> nat" where
  "pty_ev_size (PtyData bs) = Suc (length bs)"
| "pty_ev_size _ = 1"

text \<open>
  What happens in \<^verbatim>\<open>orchlua_process_read\<close> once a read has returned 0: the
  callback is called without data, the handle is marked, the pty is closed, and the
  child is looked after.
\<close>

definition read_eof :: "orch_process \<Rightarrow> os \<Rightarrow> fault + (unit lres \<times> orch_process \<times> os)" where
  "read_eof self s =
     (let s1 = emit (Callback None) s;
          self1 = self\<lparr>p_eof := True\<rparr>
      in if p_termctl self1 < 0 then Inl AssertFail
         else let s2 = emit (Close (p_termctl self1)) s1;
                  self2 = self1\<lparr>p_termctl := -1\<rparr>
              in case orchlua_process_killed self2 s2 of
                  Inl f \<Rightarrow> Inl f
                | Inr (killed, signo, self3, s3) \<Rightarrow>
                    (if killed \<and> signo \<noteq> 0
                     then Inr (LFail (Killed_with_signal signo), self3, s3)
                     else Inr (LRet (), self3, s3)))"

text \<open>
  The loop of \<^verbatim>\<open>orchlua_process_read\<close>.  \<open>cb\<close> is the callback of the script,
  as the truth value of what it returns; \<open>timeout\<close> is the third argument in whole
  seconds, \<open>None\<close> when it is absent; \<open>fd\<close> is the descriptor read on entry.
\<close>

function read_loop ::
  "(byte list option \<Rightarrow> bool) \<Rightarrow> int option \<Rightarrow> int \<Rightarrow> int \<Rightarrow> int \<Rightarrow> orch_process \<Rightarrow> os
   \<Rightarrow> fault + (unit lres \<times> orch_process \<times> os)" where
  "read_loop cb timeout fd start now self s =
     (if (timeout = None \<or> now - start < the timeout) \<and> \<not> p_error self
      then (if fd < 0 then Inl OutOfBounds
            else case pty s of
                [] \<Rightarrow> (if timeout = None then Inl Blocked else Inr (LRet (), self, s))
              | PtyIntr t # r \<Rightarrow>
                  read_loop cb timeout fd start (if timeout = None then now else t) self
                    (s\<lparr>pty := r, clock := t\<rparr>)
              | PtySelFail e # r \<Rightarrow> Inr (LFail (Strerror e), self, s\<lparr>pty := r\<rparr>)
              | PtyTimeout # r \<Rightarrow> Inr (LRet (), self, s\<lparr>pty := r\<rparr>)
              | PtyReadFail e # r \<Rightarrow>
                  (if e = EIO then read_eof self (s\<lparr>pty := r\<rparr>)
                   else Inr (LFail (Strerror e), self, s\<lparr>pty := r\<rparr>))
              | PtyData bs # r \<Rightarrow>
                  (let s1 = s\<lparr>pty := (if length bs \<le> LINE_MAX then r
                                         else PtyData (drop LINE_MAX bs) # r)\<rparr>;
                       buf = take LINE_MAX bs
                   in if buf = [] then read_eof self s1
                      else if cb (Some buf) then Inr (LRet (), self, emit (Callback (Some buf)) s1)
                      else read_loop cb timeout fd start now self
                             (emit (Callback (Some buf)) s1)))
      else Inr (LRet (), self, s))"
  by pat_completeness auto
termination
  by (relation "measure (\<lambda>(cb, timeout, fd, start, now, self, s). sum_list (map pty_ev_size (pty s)))")
     (auto simp: emit_def LINE_MAX_def)

declare read_loop.simps [simp del]

definition orchlua_process_read ::
  "orch_process \<Rightarrow> (byte list option \<Rightarrow> bool) \<Rightarrow> int option \<Rightarrow> os
   \<Rightarrow> fault + (unit lres \<times> orch_process \<times> os)" where
  "orchlua_process_read self cb timeout s =
     (case timeout of
        Some t \<Rightarrow>
          (if t < 0 then Inr (LFail Invalid_timeout, self, s)
           else read_loop cb (Some (max t 1)) (p_termctl self) (clock s) (clock s) self s)
      | None \<Rightarrow> read_loop cb None (p_termctl self) 0 0 self s)"

text \<open>
  \<^verbatim>\<open>orch_release\<close> and \<^verbatim>\<open>orchlua_process_release\<close>.  When the send has
  failed, the message is made from \<^verbatim>\<open>errno\<close> after \<^verbatim>\<open>orch_ipc_close\<close> has
  run.
\<close>

definition orch_release :: "'h orch_ipc \<Rightarrow> os \<Rightarrow> fault + (rc \<times> 'h orch_ipc \<times> os)" where
  "orch_release c s = orch_ipc_send_nodata c IPC_RELEASE s"

definition orchlua_process_release ::
  "orch_process \<Rightarrow> os \<Rightarrow> (fault + (unit lres \<times> orch_process \<times> os)) option" where
  "orchlua_process_release self s =
     (case p_ipc self of
        None \<Rightarrow> Some (Inl NullDeref)
      | Some c \<Rightarrow>
          (case orch_release c s of
             Inl f \<Rightarrow> Some (Inl f)
           | Inr (error, c1, s1) \<Rightarrow>
               (case orch_ipc_close run_parent (Some c1) (self, None) s1 of
                  None \<Rightarrow> None
                | Some (Inl f) \<Rightarrow> Some (Inl f)
                | Some (Inr (_, w, s2)) \<Rightarrow>
                    (let self1 = (fst w)\<lparr>p_ipc := None\<rparr>
                     in case error of
                         Fail e \<Rightarrow> Some (Inr (LFail Strerror_errno, self1, s2))
                       | Ok \<Rightarrow> Some (Inr (LRet (), self1\<lparr>p_released := True\<rparr>, s2))))))"

text \<open>
  \<^verbatim>\<open>orchlua_process_term\<close>, the binding \<^verbatim>\<open>term\<close> behind
  \<^verbatim>\<open>fetch_term()\<close>.  The attribute handle it returns is the one it stores in the
  process handle.  \<open>sterm0\<close> is what the local variable \<^verbatim>\<open>sterm\<close> holds before
  it is assigned.
\<close>

definition term_deregister ::
  "parent_handler orch_ipc \<Rightarrow> orch_process \<Rightarrow> unit lres \<Rightarrow> os
   \<Rightarrow> (fault + (unit lres \<times> orch_process \<times> os)) option" where
  "term_deregister c self r s =
     (case orch_ipc_register c IPC_TERMIOS_SET None of
        Inl f \<Rightarrow> Some (Inl f)
      | Inr (_, c1) \<Rightarrow> Some (Inr (r, self\<lparr>p_ipc := Some c1\<rparr>, s)))"

definition orchlua_process_term ::
  "termios \<Rightarrow> orch_process \<Rightarrow> os \<Rightarrow> (fault + (unit lres \<times> orch_process \<times> os)) option" where
  "orchlua_process_term sterm0 self s =
     (case orch_ipc_okay (p_ipc self) of
        Inl f \<Rightarrow> Some (Inl f)
      | Inr okay \<Rightarrow>
          (if \<not> okay then Some (Inr (LFail Already_released, self, s))
           else if p_term self \<noteq> None then Some (Inr (LFail Term_already_generated, self, s))
           else case orch_ipc_register (the (p_ipc self)) IPC_TERMIOS_SET
                       (Some H_process_term_set) of
               Inl f \<Rightarrow> Some (Inl f)
             | Inr (_, c1) \<Rightarrow>
                 (case orch_ipc_send_nodata c1 IPC_TERMIOS_INQUIRY s of
                    Inl f \<Rightarrow> Some (Inl f)
                  | Inr (Fail e, c2, s2) \<Rightarrow> term_deregister c2 self (LFail (Strerror e)) s2
                  | Inr (Ok, c2, s2) \<Rightarrow>
                      (case orch_ipc_wait c2 None s2 of
                         Inl f \<Rightarrow> Some (Inl f)
                       | Inr (Fail e, _, s3) \<Rightarrow> term_deregister c2 self (LFail (Strerror e)) s3
                       | Inr (Ok, _, s3) \<Rightarrow>
                           (case orch_ipc_recv run_parent c2
                                   (self, Some \<lparr>tterm = sterm0, initialized = False\<rparr>) s3 of
                              None \<Rightarrow> None
                            | Some (Inl f) \<Rightarrow> Some (Inl f)
                            | Some (Inr (Fail e, _, c4, w, s4)) \<Rightarrow>
                                term_deregister c4 (fst w) (LFail (Strerror e)) s4
                            | Some (Inr (Ok, Some cmsg, c4, w, s4)) \<Rightarrow>
                                term_deregister c4 (fst w)
                                  (LFail (Unexpected_message_type (orch_ipc_msg_tag cmsg))) s4
                            | Some (Inr (Ok, None, c4, w, s4)) \<Rightarrow>
                                (case snd w of
                                   None \<Rightarrow> Some (Inl NullDeref)
                                 | Some sterm \<Rightarrow>
                                     (if \<not> initialized sterm
                                      then term_deregister c4 (fst w)
                                             (LFail Unknown_unexpected_message) s4
                                      else term_deregister c4 ((fst w)\<lparr>p_term := Some sterm\<rparr>)
                                             (LRet ()) s4)))))))"

section \<open>One step of each loop\<close>

lemma drain_payload_0: "drain_payload c 0 acc s = Inr (PDone acc, s)"
  by (subst drain_payload.simps) simp

lemma drain_payload_chunk:
  "resid \<noteq> 0 \<Longrightarrow> 0 \<le> sockfd c \<Longrightarrow> rx s = RdChunk b # r \<Longrightarrow> b \<noteq> [] \<Longrightarrow> length b \<le> resid \<Longrightarrow>
   drain_payload c resid acc s = drain_payload c (resid - length b) (acc @ b) (s\<lparr>rx := r\<rparr>)"
  by (subst drain_payload.simps) (simp add: sock_read_def)

lemma drain_payload_eof:
  "resid \<noteq> 0 \<Longrightarrow> 0 \<le> sockfd c \<Longrightarrow> rx s = RdEof # r \<Longrightarrow>
   drain_payload c resid acc s = Inr (PEof, s\<lparr>rx := r\<rparr>)"
  by (subst drain_payload.simps) (simp add: sock_read_def)

lemma drain_loop_empty:
  "0 \<le> sockfd c \<Longrightarrow> rx s = [] \<Longrightarrow> drain_loop h c s = Inr (Ok, c, s)"
  by (subst drain_loop.simps) (simp add: sock_read_def)

lemma drain_loop_eof:
  "0 \<le> sockfd c \<Longrightarrow> rx s = RdEof # r \<Longrightarrow>
   drain_loop h c s = Inr (Ok, c\<lparr>sockfd := -1\<rparr>, emit (Close (sockfd c)) (s\<lparr>rx := r\<rparr>))"
  by (subst drain_loop.simps) (simp add: sock_read_def)

lemma drain_loop_hdr:
  "0 \<le> sockfd c \<Longrightarrow> rx s = RdChunk b # r \<Longrightarrow> length b = hdr_sz \<Longrightarrow> mem s = [] \<Longrightarrow>
   \<not> hdr_size_of b < of_nat hdr_sz \<Longrightarrow> hdr_tag_of b \<noteq> IPC_NOXMIT \<Longrightarrow>
   \<not> 2 ^ 64 \<le> unat (hdr_size_of b) + hdr_sz \<Longrightarrow>
   drain_loop h c s =
     (case drain_payload c (unat (hdr_size_of b) - hdr_sz) [] (s\<lparr>rx := r\<rparr>) of
        Inl f \<Rightarrow> Inl f
      | Inr (PFail e, s4) \<Rightarrow> Inr (Fail e, c, s4)
      | Inr (PEof, s4) \<Rightarrow> Inr (Ok, c\<lparr>sockfd := -1\<rparr>, emit (Close (sockfd c)) s4)
      | Inr (PDone d, s4) \<Rightarrow>
          drain_loop (Some b)
            (c\<lparr>queue := queue c @ [\<lparr>hdr_size = hdr_size_of b, hdr_tag = hdr_tag_of b, data = d\<rparr>]\<rparr>) s4)"
proof -
  assume a: "0 \<le> sockfd c" "rx s = RdChunk b # r" "length b = hdr_sz" "mem s = []"
    "\<not> hdr_size_of b < of_nat hdr_sz" "hdr_tag_of b \<noteq> IPC_NOXMIT"
    "\<not> 2 ^ 64 \<le> unat (hdr_size_of b) + hdr_sz"
  from a(3) have ne: "b \<noteq> []" by (auto simp: hdr_sz_def)
  show ?thesis
    using a ne by (subst drain_loop.simps) (simp add: sock_read_def hdr_fill_def malloc_def)
qed

lemma drain_loop_again:
  "0 \<le> sockfd c \<Longrightarrow> rx s = RdFail EAGAIN # r \<Longrightarrow> drain_loop h c s = Inr (Ok, c, s\<lparr>rx := r\<rparr>)"
  by (subst drain_loop.simps) (simp add: sock_read_def)

lemma send_payload_all:
  "0 \<le> fd \<Longrightarrow> wr s = [] \<Longrightarrow> send_payload fd bs s = (Ok, if bs = [] then s else s\<lparr>tx := tx s @ bs\<rparr>)"
  apply (subst send_payload.simps)
  apply (simp add: sock_write_def)
  apply (subst send_payload.simps)
  apply simp
  done

lemma length_le_bytes: "length (le_bytes k n) = k"
  by (induction k arbitrary: n) auto

lemma length_hdr_bytes: "length (hdr_bytes sz tag) = hdr_sz"
  by (simp add: hdr_bytes_def length_le_bytes hdr_sz_def)

lemma orch_ipc_send_nodata_ok:
  assumes "orch_ipc_drain c s = Inr (Ok, c1, s1)" and "0 \<le> sockfd c1" and "wr s = []"
  shows "orch_ipc_send_nodata c tag s = Inr (Ok, c1, s1\<lparr>tx := tx s1 @ hdr_bytes (of_nat hdr_sz) tag\<rparr>)"
proof -
  from orch_ipc_drain_Inr [OF assms(1)] assms(3) have w: "wr s1 = []" by simp
  show ?thesis
    unfolding orch_ipc_send_nodata_def
    apply (subst orch_ipc_send.simps)
    using assms(2)
    apply (simp add: assms(1) sock_write_def w length_hdr_bytes IPC_MSG_PAYLOAD_SIZE_def)
    apply (subst send_payload.simps)
    apply simp
    done
qed

lemma le_nat_le_bytes: "le_nat (le_bytes k n) = n mod 256 ^ k"
proof (induction k arbitrary: n)
  case 0
  show ?case by simp
next
  case (Suc k)
  have "unat (of_nat (n mod 256) :: byte) = n mod 256"
    by (simp add: unat_of_nat)
  with Suc show ?case
    by (simp add: mod_mult2_eq)
qed

lemma hdr_size_of_hdr_bytes: "hdr_size_of (hdr_bytes sz tag @ p) = sz"
proof -
  have "take 8 (hdr_bytes sz tag @ p) = le_bytes 8 (unat sz)"
    by (simp add: hdr_bytes_def length_le_bytes)
  moreover have "unat sz mod 256 ^ 8 = unat sz"
    using unsigned_less [of sz, where 'a = nat] by simp
  ultimately show ?thesis
    by (simp add: hdr_size_of_def le_nat_le_bytes)
qed

lemma hdr_tag_of_hdr_bytes: "hdr_tag_of (hdr_bytes sz tag @ p) = tag"
proof -
  have "take 4 (drop 8 (hdr_bytes sz tag @ p)) = le_bytes 4 (unat tag)"
    by (simp add: hdr_bytes_def length_le_bytes)
  moreover have "unat tag mod 256 ^ 4 = unat tag"
    using unsigned_less [of tag, where 'a = nat] by simp
  ultimately show ?thesis
    by (simp add: hdr_tag_of_def le_nat_le_bytes)
qed

lemma orch_ipc_drain_again:
  "0 \<le> sockfd c \<Longrightarrow> rx s = RdFail EAGAIN # r \<Longrightarrow> orch_ipc_drain c s = Inr (Ok, c, s\<lparr>rx := r\<rparr>)"
  by (simp add: orch_ipc_drain_def orch_ipc_okay_def drain_loop_again)

lemma orch_ipc_drain_empty:
  "0 \<le> sockfd c \<Longrightarrow> rx s = [] \<Longrightarrow> orch_ipc_drain c s = Inr (Ok, c, s)"
  by (simp add: orch_ipc_drain_def orch_ipc_okay_def drain_loop_empty)

lemma orch_ipc_drain_eof:
  "0 \<le> sockfd c \<Longrightarrow> rx s = RdEof # r \<Longrightarrow>
   orch_ipc_drain c s = Inr (Ok, c\<lparr>sockfd := -1\<rparr>, emit (Close (sockfd c)) (s\<lparr>rx := r\<rparr>))"
  by (simp add: orch_ipc_drain_def orch_ipc_okay_def drain_loop_eof)

lemma orch_ipc_pop_empty:
  "queue c = [] \<Longrightarrow> orch_ipc_pop run want c w s = Some (Inr (Ok, None, c, w, s))"
  by (subst orch_ipc_pop.simps) simp

lemma select_wait_ready:
  "sel s = [] \<Longrightarrow> rx s = e # r \<Longrightarrow> e \<noteq> RdFail EAGAIN \<Longrightarrow> select_wait s = Inr (Ok, s)"
  by (simp add: select_wait_def)

lemma orch_ipc_wait_ready:
  "sockfd c \<noteq> -1 \<Longrightarrow> sel s = [] \<Longrightarrow> rx s = e # r \<Longrightarrow> e \<noteq> RdFail EAGAIN \<Longrightarrow>
   orch_ipc_wait c x s = Inr (Ok, (if queue c \<noteq> [] then x else map_option (\<lambda>_. False) x), s)"
  unfolding orch_ipc_wait_def orch_ipc_poll_def
  by (subst poll_loop.simps) (simp add: select_wait_ready)

lemma close_loop_eof:
  "0 \<le> sockfd c \<Longrightarrow> sel s = [] \<Longrightarrow> rx s = RdEof # r \<Longrightarrow>
   close_loop c Ok s = Some (Inr (Ok, c\<lparr>sockfd := -1\<rparr>, emit (Close (sockfd c)) (s\<lparr>rx := r\<rparr>)))"
  apply (subst close_loop.simps)
  apply (simp add: orch_ipc_wait_ready orch_ipc_drain_eof)
  apply (subst close_loop.simps)
  apply simp
  done

lemma orch_ipc_close_eof:
  "0 \<le> sockfd c \<Longrightarrow> queue c = [] \<Longrightarrow> sel s = [] \<Longrightarrow> rx s = RdEof # r \<Longrightarrow>
   orch_ipc_close run (Some c) w s =
     Some (Inr (Ok, w, emit Free_ipc (emit (Close (sockfd c))
       ((emit (Shutdown_wr (sockfd c)) s)\<lparr>rx := r\<rparr>))))"
  unfolding orch_ipc_close_def
  by (simp add: close_loop_eof emit_def orch_ipc_pop_empty)

definition os_init :: os where
  "os_init = \<lparr>rx = [], sel = [], wr = [], tx = [], mem = [], pty = [], clock = 0,
     child = Running, on_sigint = None, alarm_armed = False, tcs = [], trace = []\<rparr>"


definition termios_init :: termios where
  "termios_init = \<lparr>c_iflag = 0, c_oflag = 0, c_cflag = 0, c_lflag = 0, c_cc = replicate NCCS 0,
     c_ispeed = 0, c_ospeed = 0\<rparr>"

text \<open>
  A process handle as \<^verbatim>\<open>orch_spawn\<close> leaves it: child 100, the pty master on
  descriptor 4, the channel on descriptor 3 with the handler for \<^verbatim>\<open>IPC_ERROR\<close>.
\<close>

definition chan_init :: "parent_handler orch_ipc" where
  "chan_init = \<lparr>callbacks = [None, Some H_child_error, None, None, None], queue = [], sockfd = 3\<rparr>"

definition proc_init :: orch_process where
  "proc_init = \<lparr>p_term = None, p_ipc = Some chan_init, p_pid = 100, p_status = Exited 0,
     p_termctl = 4, p_released = False, p_eof = False, p_error = False\<rparr>"

lemma proc_init_sel:
  "p_term proc_init = None" "p_ipc proc_init = Some chan_init" "p_pid proc_init = 100"
  "p_termctl proc_init = 4" "p_error proc_init = False" "p_eof proc_init = False"
  by (simp_all add: proc_init_def)

lemma chan_init_sel:
  "sockfd chan_init = 3" "queue chan_init = []"
  "callbacks chan_init = [None, Some H_child_error, None, None, None]"
  by (simp_all add: chan_init_def)

lemma release_proc_init:
  "orchlua_process_release proc_init (os_init\<lparr>rx := [RdFail EAGAIN, RdEof]\<rparr>)
   = Some (Inr (LRet (), proc_init\<lparr>p_ipc := None, p_released := True\<rparr>,
        os_init\<lparr>tx := hdr_bytes 16 IPC_RELEASE,
                trace := [Shutdown_wr 3, Close 3, Free_ipc]\<rparr>))"
proof -
  let ?s = "os_init\<lparr>rx := [RdFail EAGAIN, RdEof]\<rparr>"
  have d: "orch_ipc_drain chan_init ?s = Inr (Ok, chan_init, ?s\<lparr>rx := [RdEof]\<rparr>)"
    by (rule orch_ipc_drain_again) (simp_all add: chan_init_def os_init_def)
  have r: "orch_release chan_init ?s
      = Inr (Ok, chan_init, os_init\<lparr>rx := [RdEof], tx := hdr_bytes 16 IPC_RELEASE\<rparr>)"
    unfolding orch_release_def
    using orch_ipc_send_nodata_ok [OF d, of IPC_RELEASE]
    by (simp add: chan_init_def os_init_def hdr_sz_def)
  have c: "orch_ipc_close run_parent (Some chan_init) (proc_init, None)
        (os_init\<lparr>rx := [RdEof], tx := hdr_bytes 16 IPC_RELEASE\<rparr>)
      = Some (Inr (Ok, (proc_init, None), os_init\<lparr>tx := hdr_bytes 16 IPC_RELEASE,
                trace := [Shutdown_wr 3, Close 3, Free_ipc]\<rparr>))"
    by (subst orch_ipc_close_eof [where r = "[]"])
       (simp_all add: chan_init_def os_init_def emit_def)
  show ?thesis
    by (simp add: orchlua_process_release_def proc_init_sel r c)
qed

text \<open>
  The bytes \<^verbatim>\<open>orch_ipc_send\<close> writes for a message, and the messages that
  \<^verbatim>\<open>orch_ipc_msg_alloc\<close> builds: a tag other than the reserved one, and a length
  that counts the header and the payload.
\<close>

definition wire :: "orch_ipc_msg \<Rightarrow> byte list" where
  "wire m = hdr_bytes (hdr_size m) (hdr_tag m) @ data m"

definition msg_ok :: "orch_ipc_msg \<Rightarrow> bool" where
  "msg_ok m \<longleftrightarrow> hdr_tag m \<noteq> IPC_NOXMIT \<and> unat (hdr_size m) = hdr_sz + length (data m)
     \<and> hdr_sz + length (data m) + hdr_sz < 2 ^ 64"

lemma drain_loop_hdr_split:
  assumes "0 \<le> sockfd c" and "rx s = RdChunk (b @ p) # r" and "length b = hdr_sz" and "mem s = []"
    and "\<not> hdr_size_of b < of_nat hdr_sz" and "hdr_tag_of b \<noteq> IPC_NOXMIT"
    and "\<not> 2 ^ 64 \<le> unat (hdr_size_of b) + hdr_sz"
  shows "drain_loop h c s =
     (case drain_payload c (unat (hdr_size_of b) - hdr_sz) []
             (s\<lparr>rx := (if p = [] then r else RdChunk p # r)\<rparr>) of
        Inl f \<Rightarrow> Inl f
      | Inr (PFail e, s4) \<Rightarrow> Inr (Fail e, c, s4)
      | Inr (PEof, s4) \<Rightarrow> Inr (Ok, c\<lparr>sockfd := -1\<rparr>, emit (Close (sockfd c)) s4)
      | Inr (PDone d, s4) \<Rightarrow>
          drain_loop (Some b)
            (c\<lparr>queue := queue c @ [\<lparr>hdr_size = hdr_size_of b, hdr_tag = hdr_tag_of b, data = d\<rparr>]\<rparr>) s4)"
proof -
  from assms(3) have ne: "b \<noteq> []" by (auto simp: hdr_sz_def)
  show ?thesis
    using assms ne by (subst drain_loop.simps) (simp add: sock_read_def hdr_fill_def malloc_def)
qed

lemma drain_payload_whole:
  "0 \<le> sockfd c \<Longrightarrow> rx s = (if d = [] then r else RdChunk d # r) \<Longrightarrow>
   drain_payload c (length d) [] s = Inr (PDone d, s\<lparr>rx := r\<rparr>)"
  apply (cases "d = []")
   apply (simp add: drain_payload_0)
  apply (subst drain_payload_chunk [where b = d and r = r])
       apply (simp_all add: drain_payload_0)
  done

lemma msg_ok_hdr:
  assumes "msg_ok m"
  shows "\<not> hdr_size m < of_nat hdr_sz" and "\<not> 2 ^ 64 \<le> unat (hdr_size m) + hdr_sz"
    and "unat (hdr_size m) - hdr_sz = length (data m)" and "hdr_tag m \<noteq> IPC_NOXMIT"
    and "unat (IPC_MSG_PAYLOAD_SIZE m) = length (data m)"
proof -
  from assms have u: "unat (hdr_size m) = hdr_sz + length (data m)"
    and b: "hdr_sz + length (data m) + hdr_sz < 2 ^ 64" and t: "hdr_tag m \<noteq> IPC_NOXMIT"
    by (simp_all add: msg_ok_def)
  have h: "unat (of_nat hdr_sz :: 64 word) = hdr_sz"
    by (simp add: hdr_sz_def)
  show "\<not> hdr_size m < of_nat hdr_sz"
    using u h by (simp add: word_less_nat_alt)
  show "\<not> 2 ^ 64 \<le> unat (hdr_size m) + hdr_sz" using u b by simp
  show "unat (hdr_size m) - hdr_sz = length (data m)" using u by simp
  show "hdr_tag m \<noteq> IPC_NOXMIT" by (rule t)
  have "of_nat hdr_sz \<le> hdr_size m"
    using u h by (simp add: word_le_nat_alt)
  then have "unat (hdr_size m - of_nat hdr_sz) = unat (hdr_size m) - unat (of_nat hdr_sz :: 64 word)"
    by (rule unat_sub)
  with u h show "unat (IPC_MSG_PAYLOAD_SIZE m) = length (data m)"
    by (simp add: IPC_MSG_PAYLOAD_SIZE_def)
qed

lemma drain_loop_msgs:
  "0 \<le> sockfd c \<Longrightarrow> mem s = [] \<Longrightarrow> rx s = map (\<lambda>m. RdChunk (wire m)) ms \<Longrightarrow>
   \<forall>m\<in>set ms. msg_ok m \<Longrightarrow>
   drain_loop h c s = Inr (Ok, c\<lparr>queue := queue c @ ms\<rparr>, s\<lparr>rx := []\<rparr>)"
proof (induction ms arbitrary: h c s)
  case Nil
  then show ?case by (simp add: drain_loop_empty)
next
  case (Cons m ms)
  let ?b = "hdr_bytes (hdr_size m) (hdr_tag m)"
  let ?r = "map (\<lambda>m. RdChunk (wire m)) ms"
  from Cons.prems have ok: "msg_ok m" by simp
  note mh = msg_ok_hdr [OF ok]
  have sz: "hdr_size_of ?b = hdr_size m" and tg: "hdr_tag_of ?b = hdr_tag m"
    using hdr_size_of_hdr_bytes [of "hdr_size m" "hdr_tag m" "[]"]
      hdr_tag_of_hdr_bytes [of "hdr_size m" "hdr_tag m" "[]"] by simp_all
  have rxs: "rx s = RdChunk (?b @ data m) # ?r"
    using Cons.prems(3) by (simp add: wire_def)
  have step: "drain_loop h c s =
     (case drain_payload c (unat (hdr_size_of ?b) - hdr_sz) []
             (s\<lparr>rx := (if data m = [] then ?r else RdChunk (data m) # ?r)\<rparr>) of
        Inl f \<Rightarrow> Inl f
      | Inr (PFail e, s4) \<Rightarrow> Inr (Fail e, c, s4)
      | Inr (PEof, s4) \<Rightarrow> Inr (Ok, c\<lparr>sockfd := -1\<rparr>, emit (Close (sockfd c)) s4)
      | Inr (PDone d, s4) \<Rightarrow>
          drain_loop (Some ?b)
            (c\<lparr>queue := queue c @ [\<lparr>hdr_size = hdr_size_of ?b, hdr_tag = hdr_tag_of ?b, data = d\<rparr>]\<rparr>) s4)"
    using mh by (intro drain_loop_hdr_split [OF Cons.prems(1) rxs length_hdr_bytes Cons.prems(2)])
       (simp_all add: sz tg)
  have pl: "drain_payload c (length (data m)) []
             (s\<lparr>rx := (if data m = [] then ?r else RdChunk (data m) # ?r)\<rparr>)
           = Inr (PDone (data m), s\<lparr>rx := ?r\<rparr>)"
    using drain_payload_whole [of c "s\<lparr>rx := (if data m = [] then ?r else RdChunk (data m) # ?r)\<rparr>"
        "data m" ?r] Cons.prems(1) by simp
  have m: "\<lparr>hdr_size = hdr_size m, hdr_tag = hdr_tag m, data = data m\<rparr> = m" by simp
  have rec: "drain_loop (Some ?b) (c\<lparr>queue := queue c @ [m]\<rparr>) (s\<lparr>rx := ?r\<rparr>)
      = Inr (Ok, c\<lparr>queue := queue c @ [m]\<rparr>\<lparr>queue := queue (c\<lparr>queue := queue c @ [m]\<rparr>) @ ms\<rparr>,
             s\<lparr>rx := ?r\<rparr>\<lparr>rx := []\<rparr>)"
    by (rule Cons.IH) (use Cons.prems in simp_all)
  show ?case
    by (simp add: step sz tg mh pl m rec)
qed

lemma orch_ipc_send_ok:
  assumes "orch_ipc_drain c s = Inr (Ok, c1, s1)" and "0 \<le> sockfd c1" and "wr s = []"
    and "msg_ok msg"
  shows "orch_ipc_send c msg s = Inr (Ok, c1, s1\<lparr>tx := tx s1 @ wire msg\<rparr>)"
proof -
  from orch_ipc_drain_Inr [OF assms(1)] assms(3) have w: "wr s1 = []" by simp
  note mh = msg_ok_hdr [OF assms(4)]
  have w2: "wr (s1\<lparr>tx := tx s1 @ hdr_bytes (hdr_size msg) (hdr_tag msg)\<rparr>) = []"
    using w by simp
  show ?thesis
    apply (subst orch_ipc_send.simps)
    using assms(2)
    apply (simp add: assms(1) sock_write_def w length_hdr_bytes mh(5)
        send_payload_all [OF assms(2) w2] wire_def)
    done
qed

lemma orch_ipc_send_Inr:
  "orch_ipc_send c msg s = Inr (r, c', s') \<Longrightarrow>
     callbacks c' = callbacks c \<and> (\<exists>ms. queue c' = queue c @ ms)"
proof (induction c msg s rule: orch_ipc_send.induct)
  case (1 c msg s)
  show ?case
  proof (cases "orch_ipc_drain c s")
    case (Inl f)
    with "1.prems" show ?thesis by (simp add: orch_ipc_send.simps [of c msg s])
  next
    case (Inr b)
    obtain q c1 s1 where b: "b = (q, c1, s1)" by (cases b)
    note d = orch_ipc_drain_Inr [OF Inr [unfolded b]]
    show ?thesis
    proof (cases q)
      case (Fail e)
      with Inr b "1.prems" d show ?thesis
        by (auto simp: orch_ipc_send.simps [of c msg s])
    next
      case Ok
      obtain x s2 where wr: "sock_write (sockfd c1) (hdr_bytes (hdr_size msg) (hdr_tag msg)) s1 = (x, s2)"
        by (cases "sock_write (sockfd c1) (hdr_bytes (hdr_size msg) (hdr_tag msg)) s1")
      show ?thesis
      proof (cases "x = WErr EAGAIN")
        case True
        with Inr b Ok wr "1.prems" have "orch_ipc_send c1 msg s2 = Inr (r, c', s')"
          by (simp add: orch_ipc_send.simps [of c msg s])
        from "1.IH" [OF Inr b [symmetric] Ok refl wr [symmetric] True _ this]
        have "callbacks c' = callbacks c1 \<and> (\<exists>ms. queue c' = queue c1 @ ms)" by simp
        with d show ?thesis by auto
      next
        case False
        with Inr b Ok wr "1.prems" d show ?thesis
          by (auto simp: orch_ipc_send.simps [of c msg s]
              split: wr_result.splits if_splits prod.splits)
      qed
    qed
  qed
qed

lemma drain_payload_chunks:
  "0 \<le> sockfd c \<Longrightarrow> \<forall>p\<in>set ps. p \<noteq> [] \<Longrightarrow> rx s = map RdChunk ps @ r \<Longrightarrow>
   length (concat ps) = resid \<Longrightarrow>
   drain_payload c resid acc s = Inr (PDone (acc @ concat ps), s\<lparr>rx := r\<rparr>)"
proof (induction ps arbitrary: resid acc s)
  case Nil
  then have "s\<lparr>rx := r\<rparr> = s" by simp
  with Nil show ?case by (simp add: drain_payload_0)
next
  case (Cons p ps)
  from Cons.prems have ne: "p \<noteq> []" and rx: "rx s = RdChunk p # (map RdChunk ps @ r)"
    and len: "resid = length p + length (concat ps)" by auto
  from ne len have nz: "resid \<noteq> 0" and le: "length p \<le> resid" by auto
  have "drain_payload c resid acc s
      = drain_payload c (resid - length p) (acc @ p) (s\<lparr>rx := map RdChunk ps @ r\<rparr>)"
    by (rule drain_payload_chunk [OF nz Cons.prems(1) rx ne le])
  also have "\<dots> = Inr (PDone ((acc @ p) @ concat ps), s\<lparr>rx := map RdChunk ps @ r\<rparr>\<lparr>rx := r\<rparr>)"
    by (rule Cons.IH) (use Cons.prems len in simp_all)
  finally show ?case by simp
qed

lemma cb_slot_update [simp]:
  "cb_slot (c\<lparr>queue := q\<rparr>) t = cb_slot c t" "cb_slot (c\<lparr>sockfd := fd\<rparr>) t = cb_slot c t"
  by (simp_all add: cb_slot_def split: option.splits)

lemma orch_ipc_pop_unhandled:
  "queue c = m # ms \<Longrightarrow> cb_slot c (hdr_tag m) = Some i \<Longrightarrow> callbacks c ! i = None \<Longrightarrow>
   orch_ipc_pop run True c w s = Some (Inr (Ok, Some m, c\<lparr>queue := ms\<rparr>, w, s))"
  by (subst orch_ipc_pop.simps) simp

lemma orch_ipc_recv_one:
  assumes c: "0 \<le> sockfd c" "queue c = []" and tg: "cb_slot c (hdr_tag m) = Some i"
    "callbacks c ! i = None" and ok: "msg_ok m" and mem: "mem s = []"
    and rx: "rx s = RdChunk (hdr_bytes (hdr_size m) (hdr_tag m) @ p0) # map RdChunk ps"
    and ps: "\<forall>p\<in>set ps. p \<noteq> []" and pl: "p0 @ concat ps = data m"
  shows "orch_ipc_recv run c w s = Some (Inr (Ok, Some m, c, w, s\<lparr>rx := []\<rparr>))"
proof -
  let ?b = "hdr_bytes (hdr_size m) (hdr_tag m)"
  let ?qs = "if p0 = [] then ps else p0 # ps"
  note mh = msg_ok_hdr [OF ok]
  have sz: "hdr_size_of ?b = hdr_size m" and tgb: "hdr_tag_of ?b = hdr_tag m"
    using hdr_size_of_hdr_bytes [of "hdr_size m" "hdr_tag m" "[]"]
      hdr_tag_of_hdr_bytes [of "hdr_size m" "hdr_tag m" "[]"] by simp_all
  have step: "drain_loop None c s =
     (case drain_payload c (unat (hdr_size_of ?b) - hdr_sz) []
             (s\<lparr>rx := (if p0 = [] then map RdChunk ps else RdChunk p0 # map RdChunk ps)\<rparr>) of
        Inl f \<Rightarrow> Inl f
      | Inr (PFail e, s4) \<Rightarrow> Inr (Fail e, c, s4)
      | Inr (PEof, s4) \<Rightarrow> Inr (Ok, c\<lparr>sockfd := -1\<rparr>, emit (Close (sockfd c)) s4)
      | Inr (PDone d, s4) \<Rightarrow>
          drain_loop (Some ?b)
            (c\<lparr>queue := queue c @ [\<lparr>hdr_size = hdr_size_of ?b, hdr_tag = hdr_tag_of ?b, data = d\<rparr>]\<rparr>) s4)"
    using mh by (intro drain_loop_hdr_split [OF c(1) rx length_hdr_bytes mem]) (simp_all add: sz tgb)
  have qs: "\<forall>p\<in>set ?qs. p \<noteq> []" "concat ?qs = data m"
    using ps pl by auto
  have "drain_payload c (length (data m)) []
          (s\<lparr>rx := (if p0 = [] then map RdChunk ps else RdChunk p0 # map RdChunk ps)\<rparr>)
        = Inr (PDone ([] @ concat ?qs),
            s\<lparr>rx := (if p0 = [] then map RdChunk ps else RdChunk p0 # map RdChunk ps)\<rparr>\<lparr>rx := []\<rparr>)"
    by (rule drain_payload_chunks [OF c(1) qs(1)]) (simp_all add: qs(2))
  then have pay: "drain_payload c (length (data m)) []
          (s\<lparr>rx := (if p0 = [] then map RdChunk ps else RdChunk p0 # map RdChunk ps)\<rparr>)
        = Inr (PDone (data m), s\<lparr>rx := []\<rparr>)"
    by (simp add: qs(2))
  have m: "\<lparr>hdr_size = hdr_size m, hdr_tag = hdr_tag m, data = data m\<rparr> = m" by simp
  have "drain_loop None c s = Inr (Ok, c\<lparr>queue := [m]\<rparr>, s\<lparr>rx := []\<rparr>)"
    using c by (simp add: step sz tgb mh pay m drain_loop_empty)
  then have d: "orch_ipc_drain c s = Inr (Ok, c\<lparr>queue := [m]\<rparr>, s\<lparr>rx := []\<rparr>)"
    using c by (simp add: orch_ipc_drain_def orch_ipc_okay_def)
  have "orch_ipc_pop run True (c\<lparr>queue := [m]\<rparr>) w (s\<lparr>rx := []\<rparr>)
      = Some (Inr (Ok, Some m, c\<lparr>queue := [m]\<rparr>\<lparr>queue := []\<rparr>, w, s\<lparr>rx := []\<rparr>))"
    by (rule orch_ipc_pop_unhandled) (use tg in simp_all)
  with d c(2) show ?thesis
    by (simp add: orch_ipc_recv_def)
qed

lemma send_payload_tx:
  "send_payload fd bs s = (Ok, s') \<Longrightarrow> tx s' = tx s @ bs"
proof (induction fd bs s rule: send_payload.induct)
  case (1 fd bs s)
  show ?case
  proof (cases "bs = []")
    case True
    with "1.prems" show ?thesis by (simp add: send_payload.simps [of fd "[]" s])
  next
    case False
    obtain x s1 where w: "sock_write fd bs s = (x, s1)" by (cases "sock_write fd bs s")
    show ?thesis
    proof (cases x)
      case (WErr e)
      show ?thesis
      proof (cases "e = EAGAIN")
        case True
        with False w WErr "1.prems" have "send_payload fd bs s1 = (Ok, s')"
          by (simp add: send_payload.simps [of fd bs s])
        from "1.IH"(1) [OF False w [symmetric] WErr _ this] True
        have "tx s' = tx s1 @ bs" by simp
        moreover from w WErr have "tx s1 = tx s"
          by (auto simp: sock_write_def split: if_splits list.splits wr_event.splits)
        ultimately show ?thesis by simp
      next
        case ne: False
        with False w WErr "1.prems" show ?thesis
          by (simp add: send_payload.simps [of fd bs s])
      qed
    next
      case (WOk k)
      with False w "1.prems" have "send_payload fd (drop k bs) s1 = (Ok, s')"
        by (simp add: send_payload.simps [of fd bs s])
      from "1.IH"(2) [OF False w [symmetric] WOk this]
      have "tx s' = tx s1 @ drop k bs" .
      moreover from w WOk have "tx s1 = tx s @ take k bs"
        by (auto simp: sock_write_def min_def split: if_splits list.splits wr_event.splits)
      ultimately show ?thesis by simp
    qed
  qed
qed

lemma orch_ipc_send_tx:
  "orch_ipc_send c msg s = Inr (Ok, c', s') \<Longrightarrow> msg_ok msg \<Longrightarrow> tx s' = tx s @ wire msg"
proof (induction c msg s rule: orch_ipc_send.induct)
  case (1 c msg s)
  note mh = msg_ok_hdr [OF "1.prems"(2)]
  show ?case
  proof (cases "orch_ipc_drain c s")
    case (Inl f)
    with "1.prems" show ?thesis by (simp add: orch_ipc_send.simps [of c msg s])
  next
    case (Inr b)
    obtain q c1 s1 where b: "b = (q, c1, s1)" by (cases b)
    note d = orch_ipc_drain_Inr [OF Inr [unfolded b]]
    show ?thesis
    proof (cases q)
      case (Fail e)
      with Inr b "1.prems" show ?thesis
        by (simp add: orch_ipc_send.simps [of c msg s])
    next
      case Ok
      let ?h = "hdr_bytes (hdr_size msg) (hdr_tag msg)"
      obtain x s2 where wr: "sock_write (sockfd c1) ?h s1 = (x, s2)"
        by (cases "sock_write (sockfd c1) ?h s1")
      show ?thesis
      proof (cases x)
        case (WErr e)
        show ?thesis
        proof (cases "e = EAGAIN")
          case True
          with Inr b Ok wr WErr "1.prems" have "orch_ipc_send c1 msg s2 = Inr (Ok, c', s')"
            by (simp add: orch_ipc_send.simps [of c msg s])
          from "1.IH" [OF Inr b [symmetric] Ok refl wr [symmetric] WErr _ this "1.prems"(2)] True
          have "tx s' = tx s2 @ wire msg" by simp
          moreover from wr WErr have "tx s2 = tx s1"
            by (auto simp: sock_write_def split: if_splits list.splits wr_event.splits)
          ultimately show ?thesis using d by simp
        next
          case ne: False
          with Inr b Ok wr WErr "1.prems" show ?thesis
            by (simp add: orch_ipc_send.simps [of c msg s])
        qed
      next
        case (WOk k)
        from Inr b Ok wr WOk "1.prems"(1) have k: "\<not> k < hdr_sz"
          by (auto simp: orch_ipc_send.simps [of c msg s] split: if_splits)
        from wr WOk k have t2: "tx s2 = tx s1 @ ?h"
          by (auto simp: sock_write_def min_def length_hdr_bytes
              split: if_splits list.splits wr_event.splits)
        from Inr b Ok wr WOk k "1.prems"(1) mh(5)
        have "send_payload (sockfd c1) (data msg) s2 = (Ok, s')"
          by (auto simp: orch_ipc_send.simps [of c msg s] split: if_splits prod.splits)
        from send_payload_tx [OF this] t2 d show ?thesis
          by (simp add: wire_def)
      qed
    qed
  qed
qed

lemma orch_ipc_msg_alloc_ok:
  assumes "orch_ipc_msg_alloc tag payload s0 = Inr (Some msg, s)"
    and "length payload + 2 * hdr_sz < 2 ^ 64"
  shows "msg_ok msg" and "hdr_tag msg = tag" and "data msg = payload"
proof -
  from assms(1) have m: "msg = \<lparr>hdr_size = of_nat (hdr_sz + length payload), hdr_tag = tag,
      data = payload\<rparr>" and t: "tag \<noteq> IPC_NOXMIT"
    by (auto simp: orch_ipc_msg_alloc_def split: if_splits prod.splits bool.splits)
  from assms(2) have "hdr_sz + length payload < 2 ^ 64" by simp
  then have "unat (of_nat (hdr_sz + length payload) :: 64 word) = hdr_sz + length payload"
    by (intro of_nat_inverse [OF refl]) simp
  with m t assms(2) show "msg_ok msg" by (simp add: msg_ok_def)
  from m show "hdr_tag msg = tag" and "data msg = payload" by simp_all
qed

lemma orch_ipc_send_drain_fault:
  "orch_ipc_drain c s = Inl f \<Longrightarrow> orch_ipc_send c msg s = Inl f"
  by (subst orch_ipc_send.simps) simp

lemma orch_ipc_send_drain_fail:
  "orch_ipc_drain c s = Inr (Fail e, c1, s1) \<Longrightarrow> orch_ipc_send c msg s = Inr (Fail e, c1, s1)"
  by (subst orch_ipc_send.simps) simp

lemma orch_ipc_send_closed:
  "orch_ipc_drain c s = Inr (Ok, c1, s1) \<Longrightarrow> sockfd c1 < 0 \<Longrightarrow>
   orch_ipc_send c msg s = Inr (Fail EBADF, c1, s1)"
  by (subst orch_ipc_send.simps) (simp add: sock_write_def)

lemma orch_ipc_recv_handled:
  assumes "0 \<le> sockfd c" and "rx s = []" and "queue c = m # rest"
    and "cb_slot c (hdr_tag m) = Some i" and "callbacks c ! i = Some h"
  shows "orch_ipc_recv run c w s =
     (case run h (c\<lparr>queue := rest\<rparr>) m w s of
        Inl f \<Rightarrow> Some (Inl f)
      | Inr (Fail e, c1, w1, s1) \<Rightarrow> Some (Inr (Fail e, None, c1, w1, s1))
      | Inr (Ok, c1, w1, s1) \<Rightarrow> orch_ipc_pop run True c1 w1 s1)"
proof -
  have d: "orch_ipc_drain c s = Inr (Ok, c, s)"
    by (rule orch_ipc_drain_empty [OF assms(1,2)])
  have p: "orch_ipc_pop run True c w s =
     (case run h (c\<lparr>queue := rest\<rparr>) m w s of
        Inl f \<Rightarrow> Some (Inl f)
      | Inr (Fail e, c1, w1, s1) \<Rightarrow> Some (Inr (Fail e, None, c1, w1, s1))
      | Inr (Ok, c1, w1, s1) \<Rightarrow> orch_ipc_pop run True c1 w1 s1)"
    by (rule trans [OF orch_ipc_pop.simps]) (simp add: assms)
  show ?thesis
    by (simp add: orch_ipc_recv_def d p)
qed


text \<open>
  Round trip when the first read returns the whole header.  A message built by
  \<^verbatim>\<open>orch_ipc_msg_alloc\<close> and sent with success by \<^verbatim>\<open>orch_ipc_send\<close>; the bytes
  this send wrote arrive at the other end in any number of segments, the first of
  which holds the header at least; the receiver has an open channel, an empty queue,
  no handler for the tag, and memory.  Then \<^verbatim>\<open>orch_ipc_recv\<close> returns 0 with a
  message of the same tag and the same payload bytes.
\<close>

lemma orch_ipc_recv_round_trip_whole_header:
  assumes tag: "0 < tag" "tag < IPC_LAST"
    and len: "length payload + 2 * hdr_sz < 2 ^ 64"
    and alloc: "orch_ipc_msg_alloc tag payload s0 = Inr (Some msg, sa)"
    and send: "orch_ipc_send a msg sa = Inr (Ok, a', sa')"
    and b: "0 \<le> sockfd b" "queue b = []" "length (callbacks b) = unat IPC_LAST - 1"
      "callbacks b ! (unat tag - 1) = None" "mem sb = []"
    and link: "rx sb = RdChunk (take hdr_sz (drop (length (tx sa)) (tx sa')) @ p0) # map RdChunk ps"
      "\<forall>p\<in>set ps. p \<noteq> []"
      "p0 @ concat ps = drop hdr_sz (drop (length (tx sa)) (tx sa'))"
  shows "\<exists>m b' sb'. orch_ipc_recv run b w sb = Some (Inr (Ok, Some m, b', w, sb'))
           \<and> orch_ipc_msg_tag m = tag \<and> data m = payload
           \<and> orch_ipc_msg_payload m
               = (if payload = [] then None else Some payload, of_nat (length payload))"
proof -
  note ok = orch_ipc_msg_alloc_ok [OF alloc len]
  note mh = msg_ok_hdr [OF ok(1)]
  from orch_ipc_send_tx [OF send ok(1)]
  have sent: "drop (length (tx sa)) (tx sa') = hdr_bytes (hdr_size msg) (hdr_tag msg) @ data msg"
    by (simp add: wire_def)
  from link(1,3) have rx: "rx sb = RdChunk (hdr_bytes (hdr_size msg) (hdr_tag msg) @ p0) # map RdChunk ps"
    and pl: "p0 @ concat ps = data msg"
    by (simp_all add: sent length_hdr_bytes)
  from tag have lt: "unat tag - 1 < 5"
    by (simp add: IPC_LAST_def word_less_nat_alt)
  with tag b(3) have slot: "cb_slot b (hdr_tag msg) = Some (unat tag - 1)"
    by (simp add: cb_slot_def cb_index_def IPC_LAST_def ok(2))
  have r: "orch_ipc_recv run b w sb = Some (Inr (Ok, Some msg, b, w, sb\<lparr>rx := []\<rparr>))"
    by (rule orch_ipc_recv_one [OF b(1,2) slot b(4) ok(1) b(5) rx link(2) pl])
  have "IPC_MSG_PAYLOAD_SIZE msg = of_nat (unat (IPC_MSG_PAYLOAD_SIZE msg))" by simp
  with mh(5) ok(3) have sz: "IPC_MSG_PAYLOAD_SIZE msg = of_nat (length payload)" by simp
  from mh(5) ok(3) have z: "IPC_MSG_PAYLOAD_SIZE msg = 0 \<longleftrightarrow> payload = []"
    by (simp add: unat_eq_0 [symmetric])
  have "orch_ipc_msg_payload msg
      = (if payload = [] then None else Some payload, of_nat (length payload))"
    using z sz ok(3) by (simp add: orch_ipc_msg_payload_def Let_def)
  with r ok(2,3) show ?thesis
    by (simp add: orch_ipc_msg_tag_def)
qed

section \<open>Reading from the pty\<close>

lemma orchlua_process_close_killed:
  assumes "orchlua_process_close self s = Some (Inr (LFail (Killed_with_signal sig), self', s'))"
    and pos: "0 < p_pid self"
  shows "p_pid self \<noteq> 0" and "child s = Zombie (Signaled sig)" and "sig \<noteq> 0"
    and "self' = self\<lparr>p_status := Signaled sig, p_pid := 0\<rparr>"
    and "s' = s\<lparr>trace := trace s @ [Waitpid (p_pid self) True], child := Gone\<rparr>"
proof -
  have nk: "p_pid self \<noteq> 0"
  proof
    assume "p_pid self = 0"
    with assms show False
      by (simp add: orchlua_process_close_def Let_def
          split: sum.splits prod.splits option.splits if_splits)
  qed
  obtain res where k: "orchlua_process_killed self s = res" by simp
  show "p_pid self \<noteq> 0" by (rule nk)
  from assms nk have
    "orchlua_process_killed self s = Inr (True, sig, self', s') \<and> sig \<noteq> 0"
    by (simp add: orchlua_process_close_def Let_def
        split: sum.splits prod.splits option.splits if_splits)
  with nk pos have a: "child s = Zombie (Signaled sig) \<and> sig \<noteq> 0
      \<and> self' = self\<lparr>p_status := Signaled sig, p_pid := 0\<rparr>
      \<and> s' = s\<lparr>trace := trace s @ [Waitpid (p_pid self) True], child := Gone\<rparr>"
    by (auto simp: orchlua_process_killed_def waitpid_nohang_def emit_def Let_def
        split: child_state.splits wstatus.splits if_splits)
  from a show "child s = Zombie (Signaled sig)" by simp
  from a show "sig \<noteq> 0" by simp
  from a show "self' = self\<lparr>p_status := Signaled sig, p_pid := 0\<rparr>" by simp
  from a show "s' = s\<lparr>trace := trace s @ [Waitpid (p_pid self) True], child := Gone\<rparr>" by simp
qed

lemma read_eof_reaped:
  "p_pid self = 0 \<Longrightarrow> 0 \<le> p_termctl self \<Longrightarrow> read_eof self s = Inl AssertFail"
  by (simp add: read_eof_def orchlua_process_killed_def Let_def)

lemma read_loop_eof:
  assumes "timeout = None \<or> now - start < the timeout" and "\<not> p_error self" and "0 \<le> fd"
    and "pty s = PtyReadFail EIO # r \<or> pty s = PtyData [] # r"
  shows "read_loop cb timeout fd start now self s = read_eof self (s\<lparr>pty := r\<rparr>)"
  using assms by (subst read_loop.simps) (auto simp: Let_def)

text \<open>
  The other end conditions of \<^verbatim>\<open>orchlua_process_read\<close>: \<^verbatim>\<open>EIO\<close> from the
  read is a read of length 0; a \<^verbatim>\<open>select\<close> that times out gives the success
  outcome; and at end-of-file with a child that has not been reaped, the pty is closed
  and the outcome follows what \<^verbatim>\<open>waitpid\<close> with \<^verbatim>\<open>WNOHANG\<close> finds.
\<close>

lemma orchlua_process_read_eof:
  assumes tmo: "timeout = None \<or> (\<exists>t. timeout = Some t \<and> 0 \<le> t)"
    and err: "\<not> p_error self" and fd: "0 \<le> p_termctl self"
    and eof: "pty s = PtyReadFail EIO # r \<or> pty s = PtyData [] # r"
  shows "orchlua_process_read self cb timeout s = read_eof self (s\<lparr>pty := r\<rparr>)"
proof (cases timeout)
  case None
  then show ?thesis
    by (simp add: orchlua_process_read_def read_loop_eof [OF _ err fd eof])
next
  case (Some t)
  with tmo have t: "0 \<le> t" by simp
  have "read_loop cb (Some (max t 1)) (p_termctl self) (clock s) (clock s) self s
      = read_eof self (s\<lparr>pty := r\<rparr>)"
    by (rule read_loop_eof [OF _ err fd eof]) simp
  with Some t show ?thesis
    by (simp add: orchlua_process_read_def)
qed

lemma orchlua_process_read_timeout:
  assumes "0 \<le> t" and "\<not> p_error self" and "0 \<le> p_termctl self"
    and "pty s = PtyTimeout # r \<or> pty s = [] \<and> r = []"
  shows "orchlua_process_read self cb (Some t) s = Inr (LRet (), self, s\<lparr>pty := r\<rparr>)"
  using assms by (auto simp: orchlua_process_read_def read_loop.simps [of _ _ _ _ _ _ s])

lemma read_eof_not_reaped:
  assumes "0 < p_pid self" and "0 \<le> p_termctl self"
  shows "read_eof self s =
     (let s1 = s\<lparr>trace := trace s @ [Callback None, Close (p_termctl self), Waitpid (p_pid self) True]\<rparr>;
          self1 = self\<lparr>p_eof := True, p_termctl := -1\<rparr>
      in case child s of
          Running \<Rightarrow> Inr (LRet (), self1, s1)
        | Gone \<Rightarrow> Inr (LRet (), self1, s1)
        | Zombie (Exited n) \<Rightarrow>
            Inr (LRet (), self1\<lparr>p_status := Exited n, p_pid := 0\<rparr>, s1\<lparr>child := Gone\<rparr>)
        | Zombie (Signaled n) \<Rightarrow>
            Inr (if n \<noteq> 0 then LFail (Killed_with_signal n) else LRet (),
                 self1\<lparr>p_status := Signaled n, p_pid := 0\<rparr>, s1\<lparr>child := Gone\<rparr>))"
  using assms
  by (simp add: read_eof_def orchlua_process_killed_def waitpid_nohang_def emit_def Let_def
      split: child_state.splits wstatus.splits)

section \<open>Closing a process handle\<close>



definition only_stderr :: "effect list \<Rightarrow> bool" where
  "only_stderr es \<longleftrightarrow> list_all (\<lambda>e. case e of Stderr _ \<Rightarrow> True | _ \<Rightarrow> False) es"

lemma only_stderr_simps [simp]:
  "only_stderr []" "only_stderr (es @ fs) \<longleftrightarrow> only_stderr es \<and> only_stderr fs"
  "only_stderr [Stderr b]"
  by (simp_all add: only_stderr_def)














section \<open>The claims\<close>

text \<open>
  C2.  The claim: installing a handler for a tag that already has one fails.  The code
  does not look at the slot: here a handler is installed over another one, and the call
  returns 0 with the new handler in the table.
\<close>

theorem C2_register_replaces_counterexample:
  "orch_ipc_register
     \<lparr>callbacks = [None, None, None, Some H_process_term_set, None], queue = [], sockfd = 3\<rparr>
     IPC_TERMIOS_SET (Some H_child_error)
   = Inr (Ok, \<lparr>callbacks = [None, None, None, Some H_child_error, None], queue = [],
               sockfd = 3\<rparr>)"
  by (simp add: orch_ipc_register_def cb_slot_def cb_index_def ipc_tags)

text \<open>
  C2, amended.  For a channel with its table of \<^verbatim>\<open>IPC_LAST - 1\<close> slots and a tag
  other than the reserved one, \<^verbatim>\<open>orch_ipc_register\<close> returns 0 whether or not the
  slot was taken; afterwards the slot of the tag holds the handler given (none, when it
  was the null handler), the slots of the other tags, the queue and the socket are as
  before.
\<close>

theorem C2_register_always_installs:
  assumes "length (callbacks c) = unat IPC_LAST - 1" and "0 < tag" and "tag < IPC_LAST"
  shows "\<exists>c'. orch_ipc_register c tag h = Inr (Ok, c')
           \<and> length (callbacks c') = unat IPC_LAST - 1
           \<and> callbacks c' ! (unat tag - 1) = h
           \<and> (\<forall>t. 0 < t \<and> t < IPC_LAST \<and> t \<noteq> tag
                 \<longrightarrow> callbacks c' ! (unat t - 1) = callbacks c ! (unat t - 1))
           \<and> queue c' = queue c \<and> sockfd c' = sockfd c"
proof -
  from assms(2,3) have lt: "unat tag - 1 < 5"
    by (simp add: IPC_LAST_def word_less_nat_alt)
  have idx: "cb_slot c tag = Some (unat tag - 1)"
    using assms lt by (simp add: cb_slot_def cb_index_def IPC_LAST_def)
  have other: "unat t - 1 \<noteq> unat tag - 1" if "0 < t" "t \<noteq> tag" for t :: "32 word"
  proof
    assume e: "unat t - 1 = unat tag - 1"
    from that(1) assms(2) have "0 < unat t" "0 < unat tag"
      by (simp_all add: word_less_nat_alt)
    with e have "unat t = unat tag" by arith
    with that(2) show False by (simp add: word_unat_eq_iff)
  qed
  show ?thesis
    using idx lt assms(1) other [THEN not_sym] by (simp add: orch_ipc_register_def IPC_LAST_def)
qed

theorem C2_register_always_installs_witness:
  "length [None, None, None, Some H_process_term_set, None] = unat IPC_LAST - 1
   \<and> 0 < IPC_TERMIOS_SET \<and> IPC_TERMIOS_SET < IPC_LAST
   \<and> (\<exists>c'. orch_ipc_register
          \<lparr>callbacks = [None, None, None, Some H_process_term_set, None], queue = [],
            sockfd = 3\<rparr> IPC_TERMIOS_SET (Some H_process_term_set) = Inr (Ok, c')
        \<and> callbacks c' ! (unat IPC_TERMIOS_SET - 1) = Some H_process_term_set)"
proof -
  have h1: "length (callbacks \<lparr>callbacks = [None, None, None, Some H_process_term_set, None],
      queue = [], sockfd = 3\<rparr>) = unat IPC_LAST - 1"
    by (simp add: ipc_tags)
  have h2: "0 < IPC_TERMIOS_SET" and h3: "IPC_TERMIOS_SET < IPC_LAST"
    by (simp_all add: ipc_tags)
  from C2_register_always_installs [OF h1 h2 h3, of "Some H_process_term_set"]
  obtain c' where "orch_ipc_register
          \<lparr>callbacks = [None, None, None, Some H_process_term_set, None], queue = [],
            sockfd = 3\<rparr> IPC_TERMIOS_SET (Some H_process_term_set) = Inr (Ok, c')"
    and "callbacks c' ! (unat IPC_TERMIOS_SET - 1) = Some H_process_term_set"
    by blast
  with h1 h2 h3 show ?thesis by auto
qed
text \<open>
  C9.  The claim: the validation of the header keeps the index of the handler table in
  bounds.  The header is rejected for a length below the header size and for the tag
  \<^verbatim>\<open>IPC_NOXMIT\<close> only: a header with the tag \<^verbatim>\<open>IPC_LAST\<close> is accepted and
  its message queued, and the dispatch step then reads \<^verbatim>\<open>callbacks[IPC_LAST - 1]\<close>,
  one past the last slot.
\<close>

theorem C9_tag_above_table_accepted:
  "orch_ipc_drain \<lparr>callbacks = replicate 5 None, queue = [], sockfd = 3\<rparr>
      (os_init\<lparr>rx := [RdChunk (hdr_bytes 16 IPC_LAST)]\<rparr>)
     = Inr (Ok, \<lparr>callbacks = replicate 5 None,
                 queue = [\<lparr>hdr_size = 16, hdr_tag = IPC_LAST, data = []\<rparr>], sockfd = 3\<rparr>,
            os_init)
   \<and> cb_index IPC_LAST = None
   \<and> orch_ipc_pop run want
        \<lparr>callbacks = replicate 5 None,
          queue = [\<lparr>hdr_size = 16, hdr_tag = IPC_LAST, data = []\<rparr>], sockfd = 3\<rparr> w os_init
     = Some (Inl OutOfBounds)"
proof -
  let ?c = "\<lparr>callbacks = replicate 5 None, queue = [], sockfd = 3\<rparr> :: 'a orch_ipc"
  let ?s = "os_init\<lparr>rx := [RdChunk (hdr_bytes 16 IPC_LAST)]\<rparr>"
  have sz: "hdr_size_of (hdr_bytes 16 IPC_LAST) = 16" and tg: "hdr_tag_of (hdr_bytes 16 IPC_LAST) = IPC_LAST"
    using hdr_size_of_hdr_bytes [of 16 IPC_LAST "[]"] hdr_tag_of_hdr_bytes [of 16 IPC_LAST "[]"]
    by simp_all
  have "drain_loop None ?c ?s =
     (case drain_payload ?c (unat (hdr_size_of (hdr_bytes 16 IPC_LAST)) - hdr_sz) [] (?s\<lparr>rx := []\<rparr>) of
        Inl f \<Rightarrow> Inl f
      | Inr (PFail e, s4) \<Rightarrow> Inr (Fail e, ?c, s4)
      | Inr (PEof, s4) \<Rightarrow> Inr (Ok, ?c\<lparr>sockfd := -1\<rparr>, emit (Close (sockfd ?c)) s4)
      | Inr (PDone d, s4) \<Rightarrow>
          drain_loop (Some (hdr_bytes 16 IPC_LAST))
            (?c\<lparr>queue := queue ?c @ [\<lparr>hdr_size = hdr_size_of (hdr_bytes 16 IPC_LAST),
                      hdr_tag = hdr_tag_of (hdr_bytes 16 IPC_LAST), data = d\<rparr>]\<rparr>) s4)"
    by (rule drain_loop_hdr)
       (simp_all add: os_init_def length_hdr_bytes sz tg sz [unfolded IPC_LAST_def]
          tg [unfolded IPC_LAST_def] hdr_sz_def ipc_tags)
  then have "drain_loop None ?c ?s =
      Inr (Ok, \<lparr>callbacks = replicate 5 None,
                 queue = [\<lparr>hdr_size = 16, hdr_tag = IPC_LAST, data = []\<rparr>], sockfd = 3\<rparr>, os_init)"
    by (simp add: sz tg hdr_sz_def drain_payload_0 drain_loop_empty os_init_def)
  then have a: "orch_ipc_drain ?c ?s =
      Inr (Ok, \<lparr>callbacks = replicate 5 None,
                 queue = [\<lparr>hdr_size = 16, hdr_tag = IPC_LAST, data = []\<rparr>], sockfd = 3\<rparr>, os_init)"
    by (simp add: orch_ipc_drain_def orch_ipc_okay_def)
  have b: "cb_index IPC_LAST = None"
    by (simp add: cb_index_def)
  have c: "orch_ipc_pop run want
        \<lparr>callbacks = replicate 5 None,
          queue = [\<lparr>hdr_size = 16, hdr_tag = IPC_LAST, data = []\<rparr>], sockfd = 3\<rparr> w os_init
     = Some (Inl OutOfBounds)"
    by (subst orch_ipc_pop.simps) (simp add: cb_slot_def b)
  from a b c show ?thesis by simp
qed

text \<open>
  C10.  The claim: after \<^verbatim>\<open>release()\<close>, \<^verbatim>\<open>fetch_term()\<close> returns the failure
  "process already released".  Whenever \<^verbatim>\<open>orchlua_process_release\<close> returns it has
  set the channel pointer of the handle to null, and \<^verbatim>\<open>orchlua_process_term\<close>
  begins with \<^verbatim>\<open>orch_ipc_okay\<close> on that pointer, which reads
  \<^verbatim>\<open>ipc->sockfd\<close> through it.
\<close>

theorem C10_term_after_release_null_deref:
  "orchlua_process_release self s = Some (Inr (r, self', s'))
   \<Longrightarrow> orchlua_process_term sterm0 self' s' = Some (Inl NullDeref)"
proof -
  assume "orchlua_process_release self s = Some (Inr (r, self', s'))"
  then have "p_ipc self' = None"
    by (auto simp: orchlua_process_release_def Let_def
        split: option.splits sum.splits prod.splits rc.splits)
  then show ?thesis
    by (simp add: orchlua_process_term_def orch_ipc_okay_def)
qed

theorem C10_term_after_release_witness:
  "orchlua_process_release proc_init (os_init\<lparr>rx := [RdFail EAGAIN, RdEof]\<rparr>)
     = Some (Inr (LRet (), proc_init\<lparr>p_ipc := None, p_released := True\<rparr>,
          os_init\<lparr>tx := hdr_bytes 16 IPC_RELEASE,
                  trace := [Shutdown_wr 3, Close 3, Free_ipc]\<rparr>))
   \<and> orchlua_process_term termios_init (proc_init\<lparr>p_ipc := None, p_released := True\<rparr>)
       (os_init\<lparr>tx := hdr_bytes 16 IPC_RELEASE, trace := [Shutdown_wr 3, Close 3, Free_ipc]\<rparr>)
     = Some (Inl NullDeref)"
  using C10_term_after_release_null_deref [OF release_proc_init, of termios_init]
    release_proc_init
  by simp
text \<open>
  C4.  The claim: before it writes, \<^verbatim>\<open>orch_ipc_send\<close> drains the inbound messages
  and dispatches them to their handlers.  Here an \<^verbatim>\<open>IPC_ERROR\<close> message with the
  payload "x" is pending when the parent, which has \<^verbatim>\<open>orchlua_child_error\<close>
  registered for that tag, sends \<^verbatim>\<open>IPC_RELEASE\<close>: the send succeeds, the message
  is in the queue afterwards, and nothing was written to standard error, which the
  handler would have done.
\<close>

theorem C4_send_does_not_dispatch_counterexample:
  "orch_ipc_send_nodata chan_init IPC_RELEASE
      (os_init\<lparr>rx := [RdChunk (hdr_bytes 17 IPC_ERROR @ [120])]\<rparr>)
     = Inr (Ok, chan_init\<lparr>queue := [\<lparr>hdr_size = 17, hdr_tag = IPC_ERROR, data = [120]\<rparr>]\<rparr>,
            os_init\<lparr>tx := hdr_bytes 16 IPC_RELEASE\<rparr>)
   \<and> cb_slot chan_init IPC_ERROR = Some 1
   \<and> callbacks chan_init ! 1 = Some H_child_error
   \<and> trace (os_init\<lparr>tx := hdr_bytes 16 IPC_RELEASE\<rparr>) = []"
proof -
  let ?m = "\<lparr>hdr_size = 17, hdr_tag = IPC_ERROR, data = [120]\<rparr>"
  let ?s = "os_init\<lparr>rx := [RdChunk (hdr_bytes 17 IPC_ERROR @ [120])]\<rparr>"
  have ok: "msg_ok ?m"
    by (simp add: msg_ok_def ipc_tags hdr_sz_def)
  have "drain_loop None chan_init ?s
      = Inr (Ok, chan_init\<lparr>queue := queue chan_init @ [?m]\<rparr>, ?s\<lparr>rx := []\<rparr>)"
    by (rule drain_loop_msgs) (simp_all add: chan_init_sel os_init_def wire_def ok)
  then have d: "orch_ipc_drain chan_init ?s
      = Inr (Ok, chan_init\<lparr>queue := [?m]\<rparr>, os_init)"
    by (simp add: orch_ipc_drain_def orch_ipc_okay_def chan_init_sel os_init_def)
  have "orch_ipc_send_nodata chan_init IPC_RELEASE ?s
      = Inr (Ok, chan_init\<lparr>queue := [?m]\<rparr>,
             os_init\<lparr>tx := tx os_init @ hdr_bytes (of_nat hdr_sz) IPC_RELEASE\<rparr>)"
    by (rule orch_ipc_send_nodata_ok [OF d]) (simp_all add: chan_init_sel os_init_def)
  then show ?thesis
    by (simp add: hdr_sz_def os_init_def chan_init_sel cb_slot_def cb_index_def ipc_tags)
qed

text \<open>
  C4, amended.  \<^verbatim>\<open>orch_ipc_send\<close> drains first, writes afterwards, and does not
  dispatch.  Whatever the socket does: a drain that does not return, or fails, ends the
  send with that outcome and with nothing written; a drain that has met end-of-file
  has closed the socket, and the send fails with \<^verbatim>\<open>EBADF\<close> and nothing written;
  after a drain that succeeded on a socket that takes the write, the send returns 0
  with the channel as the drain left it and the header and payload written after what
  had been written before; and a send that returns has left the handler table as it
  was and has only appended to the queue.  When the messages \<open>ms\<close> are pending, each
  complete, with memory for them, the send succeeds with exactly \<open>ms\<close> appended to
  the queue in their order of arrival; and the next \<^verbatim>\<open>orch_ipc_recv\<close> calls the
  handler of the message at the head of the queue, where it has one.
\<close>

theorem C4_send_drains_into_queue:
  "(orch_ipc_drain c s = Inl f \<longrightarrow> orch_ipc_send c msg s = Inl f)
   \<and> (orch_ipc_drain c s = Inr (Fail e, c1, s1)
        \<longrightarrow> orch_ipc_send c msg s = Inr (Fail e, c1, s1) \<and> tx s1 = tx s)
   \<and> (orch_ipc_drain c s = Inr (Ok, c1, s1) \<and> sockfd c1 < 0
        \<longrightarrow> orch_ipc_send c msg s = Inr (Fail EBADF, c1, s1) \<and> tx s1 = tx s)
   \<and> (orch_ipc_drain c s = Inr (Ok, c1, s1) \<and> 0 \<le> sockfd c1 \<and> wr s = [] \<and> msg_ok msg
        \<longrightarrow> orch_ipc_send c msg s = Inr (Ok, c1, s1\<lparr>tx := tx s @ wire msg\<rparr>))
   \<and> (orch_ipc_send c msg s = Inr (r, c', s')
        \<longrightarrow> callbacks c' = callbacks c \<and> (\<exists>ns. queue c' = queue c @ ns))
   \<and> (0 \<le> sockfd c \<and> mem s = [] \<and> wr s = [] \<and> rx s = map (\<lambda>m. RdChunk (wire m)) ms
        \<and> (\<forall>m\<in>set ms. msg_ok m) \<and> msg_ok msg
      \<longrightarrow> orch_ipc_send c msg s
            = Inr (Ok, c\<lparr>queue := queue c @ ms\<rparr>, s\<lparr>rx := [], tx := tx s @ wire msg\<rparr>)
          \<and> (\<forall>m rest i h.
                queue c @ ms = m # rest \<and> cb_slot c (hdr_tag m) = Some i
                \<and> callbacks c ! i = Some h
              \<longrightarrow> orch_ipc_recv run (c\<lparr>queue := queue c @ ms\<rparr>) w
                      (s\<lparr>rx := [], tx := tx s @ wire msg\<rparr>)
                  = (case run h (c\<lparr>queue := rest\<rparr>) m w
                            (s\<lparr>rx := [], tx := tx s @ wire msg\<rparr>) of
                       Inl f \<Rightarrow> Some (Inl f)
                     | Inr (Fail e, c1, w1, s1) \<Rightarrow> Some (Inr (Fail e, None, c1, w1, s1))
                     | Inr (Ok, c1, w1, s1) \<Rightarrow> orch_ipc_pop run True c1 w1 s1)))"
proof -
  have p1: "orch_ipc_drain c s = Inl f \<longrightarrow> orch_ipc_send c msg s = Inl f"
    by (simp add: orch_ipc_send_drain_fault)
  have p2: "orch_ipc_drain c s = Inr (Fail e, c1, s1)
        \<longrightarrow> orch_ipc_send c msg s = Inr (Fail e, c1, s1) \<and> tx s1 = tx s"
    using orch_ipc_drain_Inr [of c s "Fail e" c1 s1]
    by (simp add: orch_ipc_send_drain_fail)
  have p3: "orch_ipc_drain c s = Inr (Ok, c1, s1) \<and> sockfd c1 < 0
        \<longrightarrow> orch_ipc_send c msg s = Inr (Fail EBADF, c1, s1) \<and> tx s1 = tx s"
    using orch_ipc_drain_Inr [of c s Ok c1 s1]
    by (simp add: orch_ipc_send_closed)
  have p4: "orch_ipc_drain c s = Inr (Ok, c1, s1) \<and> 0 \<le> sockfd c1 \<and> wr s = [] \<and> msg_ok msg
        \<longrightarrow> orch_ipc_send c msg s = Inr (Ok, c1, s1\<lparr>tx := tx s @ wire msg\<rparr>)"
    using orch_ipc_drain_Inr [of c s Ok c1 s1] orch_ipc_send_ok [of c s c1 s1 msg]
    by auto
  have p5: "orch_ipc_send c msg s = Inr (r, c', s')
        \<longrightarrow> callbacks c' = callbacks c \<and> (\<exists>ns. queue c' = queue c @ ns)"
    using orch_ipc_send_Inr [of c msg s r c' s'] by blast
  have p6: "0 \<le> sockfd c \<and> mem s = [] \<and> wr s = [] \<and> rx s = map (\<lambda>m. RdChunk (wire m)) ms
        \<and> (\<forall>m\<in>set ms. msg_ok m) \<and> msg_ok msg
      \<longrightarrow> orch_ipc_send c msg s
            = Inr (Ok, c\<lparr>queue := queue c @ ms\<rparr>, s\<lparr>rx := [], tx := tx s @ wire msg\<rparr>)
          \<and> (\<forall>m rest i h.
                queue c @ ms = m # rest \<and> cb_slot c (hdr_tag m) = Some i
                \<and> callbacks c ! i = Some h
              \<longrightarrow> orch_ipc_recv run (c\<lparr>queue := queue c @ ms\<rparr>) w
                      (s\<lparr>rx := [], tx := tx s @ wire msg\<rparr>)
                  = (case run h (c\<lparr>queue := rest\<rparr>) m w
                            (s\<lparr>rx := [], tx := tx s @ wire msg\<rparr>) of
                       Inl f \<Rightarrow> Some (Inl f)
                     | Inr (Fail e, c1, w1, s1) \<Rightarrow> Some (Inr (Fail e, None, c1, w1, s1))
                     | Inr (Ok, c1, w1, s1) \<Rightarrow> orch_ipc_pop run True c1 w1 s1))"
  proof (intro impI)
    assume a: "0 \<le> sockfd c \<and> mem s = [] \<and> wr s = [] \<and> rx s = map (\<lambda>m. RdChunk (wire m)) ms
        \<and> (\<forall>m\<in>set ms. msg_ok m) \<and> msg_ok msg"
    then have "drain_loop None c s = Inr (Ok, c\<lparr>queue := queue c @ ms\<rparr>, s\<lparr>rx := []\<rparr>)"
      by (intro drain_loop_msgs) simp_all
    with a have d: "orch_ipc_drain c s = Inr (Ok, c\<lparr>queue := queue c @ ms\<rparr>, s\<lparr>rx := []\<rparr>)"
      by (simp add: orch_ipc_drain_def orch_ipc_okay_def)
    from a have "orch_ipc_send c msg s
        = Inr (Ok, c\<lparr>queue := queue c @ ms\<rparr>, s\<lparr>rx := []\<rparr>\<lparr>tx := tx (s\<lparr>rx := []\<rparr>) @ wire msg\<rparr>)"
      by (intro orch_ipc_send_ok [OF d]) simp_all
    then have snd: "orch_ipc_send c msg s
        = Inr (Ok, c\<lparr>queue := queue c @ ms\<rparr>, s\<lparr>rx := [], tx := tx s @ wire msg\<rparr>)"
      by simp
    have rcv: "orch_ipc_recv run (c\<lparr>queue := queue c @ ms\<rparr>) w
                      (s\<lparr>rx := [], tx := tx s @ wire msg\<rparr>)
                  = (case run h (c\<lparr>queue := rest\<rparr>) m w
                            (s\<lparr>rx := [], tx := tx s @ wire msg\<rparr>) of
                       Inl f \<Rightarrow> Some (Inl f)
                     | Inr (Fail e, c1, w1, s1) \<Rightarrow> Some (Inr (Fail e, None, c1, w1, s1))
                     | Inr (Ok, c1, w1, s1) \<Rightarrow> orch_ipc_pop run True c1 w1 s1)"
      if "queue c @ ms = m # rest \<and> cb_slot c (hdr_tag m) = Some i \<and> callbacks c ! i = Some h"
      for m rest i h
      using orch_ipc_recv_handled [of "c\<lparr>queue := queue c @ ms\<rparr>"
          "s\<lparr>rx := [], tx := tx s @ wire msg\<rparr>" m rest i h run w] a that
      by simp
    from snd rcv show "orch_ipc_send c msg s
            = Inr (Ok, c\<lparr>queue := queue c @ ms\<rparr>, s\<lparr>rx := [], tx := tx s @ wire msg\<rparr>)
          \<and> (\<forall>m rest i h.
                queue c @ ms = m # rest \<and> cb_slot c (hdr_tag m) = Some i
                \<and> callbacks c ! i = Some h
              \<longrightarrow> orch_ipc_recv run (c\<lparr>queue := queue c @ ms\<rparr>) w
                      (s\<lparr>rx := [], tx := tx s @ wire msg\<rparr>)
                  = (case run h (c\<lparr>queue := rest\<rparr>) m w
                            (s\<lparr>rx := [], tx := tx s @ wire msg\<rparr>) of
                       Inl f \<Rightarrow> Some (Inl f)
                     | Inr (Fail e, c1, w1, s1) \<Rightarrow> Some (Inr (Fail e, None, c1, w1, s1))
                     | Inr (Ok, c1, w1, s1) \<Rightarrow> orch_ipc_pop run True c1 w1 s1))"
      by blast
  qed
  from p1 p2 p3 p4 p5 p6 show ?thesis by blast
qed


theorem C4_send_drains_into_queue_witness:
  "(orch_ipc_drain chan_init (os_init\<lparr>rx := [RdEof]\<rparr>)
      = Inr (Ok, chan_init\<lparr>sockfd := -1\<rparr>, os_init\<lparr>trace := [Close 3]\<rparr>)
    \<and> sockfd (chan_init\<lparr>sockfd := -1\<rparr>) < 0)
   \<and> orch_ipc_send chan_init \<lparr>hdr_size = 16, hdr_tag = IPC_RELEASE, data = []\<rparr>
        (os_init\<lparr>rx := [RdEof]\<rparr>)
     = Inr (Fail EBADF, chan_init\<lparr>sockfd := -1\<rparr>, os_init\<lparr>trace := [Close 3]\<rparr>)
   \<and> (0 \<le> sockfd chan_init
      \<and> mem (os_init\<lparr>rx := [RdChunk (hdr_bytes 17 IPC_ERROR @ [120])]\<rparr>) = []
      \<and> wr (os_init\<lparr>rx := [RdChunk (hdr_bytes 17 IPC_ERROR @ [120])]\<rparr>) = []
      \<and> msg_ok \<lparr>hdr_size = 17, hdr_tag = IPC_ERROR, data = [120]\<rparr>
      \<and> msg_ok \<lparr>hdr_size = 16, hdr_tag = IPC_RELEASE, data = []\<rparr>
      \<and> cb_slot chan_init IPC_ERROR = Some 1 \<and> callbacks chan_init ! 1 = Some H_child_error)
   \<and> orch_ipc_send chan_init \<lparr>hdr_size = 16, hdr_tag = IPC_RELEASE, data = []\<rparr>
        (os_init\<lparr>rx := [RdChunk (hdr_bytes 17 IPC_ERROR @ [120])]\<rparr>)
     = Inr (Ok, chan_init\<lparr>queue := [\<lparr>hdr_size = 17, hdr_tag = IPC_ERROR, data = [120]\<rparr>]\<rparr>,
            os_init\<lparr>tx := hdr_bytes 16 IPC_RELEASE\<rparr>)
   \<and> orch_ipc_recv run_parent
        (chan_init\<lparr>queue := [\<lparr>hdr_size = 17, hdr_tag = IPC_ERROR, data = [120]\<rparr>]\<rparr>)
        (proc_init, None) (os_init\<lparr>tx := hdr_bytes 16 IPC_RELEASE\<rparr>)
     = Some (Inr (Ok, None, chan_init, (proc_init\<lparr>p_error := True\<rparr>, None),
          os_init\<lparr>tx := hdr_bytes 16 IPC_RELEASE,
                  trace := [Stderr (bytes_of ''CHILD ERROR: '' @ [120, 10])]\<rparr>))"
proof -
  let ?m = "\<lparr>hdr_size = 17, hdr_tag = IPC_ERROR, data = [120]\<rparr>"
  let ?rel = "\<lparr>hdr_size = 16, hdr_tag = IPC_RELEASE, data = []\<rparr>"
  let ?s = "os_init\<lparr>rx := [RdChunk (hdr_bytes 17 IPC_ERROR @ [120])]\<rparr>"
  let ?e = "os_init\<lparr>rx := [RdEof]\<rparr>"
  let ?s' = "os_init\<lparr>tx := hdr_bytes 16 IPC_RELEASE\<rparr>"
  have d: "orch_ipc_drain chan_init ?e
      = Inr (Ok, chan_init\<lparr>sockfd := -1\<rparr>, os_init\<lparr>trace := [Close 3]\<rparr>)"
    using orch_ipc_drain_eof [of chan_init ?e "[]"]
    by (simp add: chan_init_sel os_init_def emit_def)
  have neg: "sockfd (chan_init\<lparr>sockfd := -1\<rparr>) < 0" by simp
  note t3 = C4_send_drains_into_queue [where c = chan_init and s = ?e
      and ?c1.0 = "chan_init\<lparr>sockfd := -1\<rparr>" and ?s1.0 = "os_init\<lparr>trace := [Close 3]\<rparr>"
      and msg = ?rel, THEN conjunct2, THEN conjunct2, THEN conjunct1]
  from mp [OF t3 conjI [OF d neg]]
  have a: "orch_ipc_send chan_init ?rel ?e
      = Inr (Fail EBADF, chan_init\<lparr>sockfd := -1\<rparr>, os_init\<lparr>trace := [Close 3]\<rparr>)"
    by (rule conjunct1)
  have h: "0 \<le> sockfd chan_init \<and> mem ?s = [] \<and> wr ?s = []
      \<and> rx ?s = map (\<lambda>m. RdChunk (wire m)) [?m] \<and> (\<forall>m\<in>set [?m]. msg_ok m) \<and> msg_ok ?rel"
    by (simp add: chan_init_sel os_init_def wire_def msg_ok_def ipc_tags hdr_sz_def)
  have k: "cb_slot chan_init IPC_ERROR = Some 1" "callbacks chan_init ! 1 = Some H_child_error"
    by (simp_all add: chan_init_sel cb_slot_def cb_index_def ipc_tags)
  have q: "queue chan_init @ [?m] = ?m # [] \<and> cb_slot chan_init (hdr_tag ?m) = Some 1
      \<and> callbacks chan_init ! 1 = Some H_child_error"
    using k by (simp add: chan_init_sel)
  note t6 = C4_send_drains_into_queue [where c = chan_init and s = ?s and msg = ?rel
      and ms = "[?m]" and run = run_parent and w = "(proc_init, None)",
      THEN conjunct2, THEN conjunct2, THEN conjunct2, THEN conjunct2, THEN conjunct2]
  note both = mp [OF t6 h]
  from both have b: "orch_ipc_send chan_init ?rel ?s
      = Inr (Ok, chan_init\<lparr>queue := queue chan_init @ [?m]\<rparr>,
             ?s\<lparr>rx := [], tx := tx ?s @ wire ?rel\<rparr>)"
    by (rule conjunct1)
  from both [THEN conjunct2, rule_format, OF q] have "orch_ipc_recv run_parent (chan_init\<lparr>queue := queue chan_init @ [?m]\<rparr>)
        (proc_init, None) (?s\<lparr>rx := [], tx := tx ?s @ wire ?rel\<rparr>)
      = (case run_parent H_child_error (chan_init\<lparr>queue := []\<rparr>) ?m (proc_init, None)
                (?s\<lparr>rx := [], tx := tx ?s @ wire ?rel\<rparr>) of
           Inl f \<Rightarrow> Some (Inl f)
         | Inr (Fail e, c1, w1, s1) \<Rightarrow> Some (Inr (Fail e, None, c1, w1, s1))
         | Inr (Ok, c1, w1, s1) \<Rightarrow> orch_ipc_pop run_parent True c1 w1 s1)" .
  then have c: "orch_ipc_recv run_parent (chan_init\<lparr>queue := [?m]\<rparr>) (proc_init, None) ?s'
      = Some (Inr (Ok, None, chan_init, (proc_init\<lparr>p_error := True\<rparr>, None),
          os_init\<lparr>tx := hdr_bytes 16 IPC_RELEASE,
                  trace := [Stderr (bytes_of ''CHILD ERROR: '' @ [120, 10])]\<rparr>))"
    by (simp add: chan_init_sel os_init_def wire_def run_parent_def orchlua_child_error_def
        orch_ipc_msg_payload_def IPC_MSG_PAYLOAD_SIZE_def hdr_sz_def Let_def emit_def
        orch_ipc_pop_empty chan_init_def)
  from b have b': "orch_ipc_send chan_init ?rel ?s
      = Inr (Ok, chan_init\<lparr>queue := [?m]\<rparr>, ?s')"
    by (simp add: chan_init_sel os_init_def wire_def)
  have ok: "msg_ok ?m" "msg_ok ?rel"
    by (simp_all add: msg_ok_def ipc_tags hdr_sz_def)
  from d neg a h ok k b' c show ?thesis by simp
qed



text \<open>
  C8.  What the claim says of end-of-file holds when the child has not been reaped
  before.  \<^verbatim>\<open>orchlua_process_read\<close> calls \<^verbatim>\<open>orchlua_process_killed\<close> at
  end-of-file whether or not the child has been reaped, and that function asserts
  \<^verbatim>\<open>self->pid != 0\<close>; \<^verbatim>\<open>orchlua_process_close\<close> tests \<^verbatim>\<open>self->pid != 0\<close>
  before the same call.  A handle on which \<^verbatim>\<open>close\<close> has found the child killed by
  a signal has been reaped, its pid is 0, and its pty is still open; a \<^verbatim>\<open>read\<close> on
  it that meets end-of-file, as a read of length 0 or as \<^verbatim>\<open>EIO\<close>, with or without a
  timeout, ends in the failed assertion instead of the clean end-of-file.
\<close>

theorem C8_read_eof_after_reaped_asserts:
  assumes close: "orchlua_process_close self s
        = Some (Inr (LFail (Killed_with_signal sig), self', s'))"
    and pid: "0 < p_pid self"
    and fd: "0 \<le> p_termctl self" and err: "\<not> p_error self"
    and eof: "pty s = PtyReadFail EIO # r \<or> pty s = PtyData [] # r"
    and tmo: "timeout = None \<or> (\<exists>t. timeout = Some t \<and> 0 \<le> t)"
  shows "p_pid self' = 0 \<and> p_termctl self' = p_termctl self \<and> child s' = Gone
       \<and> orchlua_process_read self' cb timeout s' = Inl AssertFail"
proof -
  note k = orchlua_process_close_killed [OF close pid]
  from k(4) have pid: "p_pid self' = 0" and tc: "p_termctl self' = p_termctl self"
    and pe: "p_error self' = p_error self"
    by simp_all
  from k(5) have ch: "child s' = Gone" and pty: "pty s' = pty s" by simp_all
  from eof pty have eof': "pty s' = PtyReadFail EIO # r \<or> pty s' = PtyData [] # r" by simp
  from fd tc have fd': "0 \<le> p_termctl self'" by simp
  from err pe have err': "\<not> p_error self'" by simp
  have "orchlua_process_read self' cb timeout s' = read_eof self' (s'\<lparr>pty := r\<rparr>)"
    by (rule orchlua_process_read_eof [OF tmo err' fd' eof'])
  also have "\<dots> = Inl AssertFail"
    by (rule read_eof_reaped [OF pid fd'])
  finally show ?thesis using pid tc ch by simp
qed

theorem C8_read_eof_after_reaped_witness:
  "orchlua_process_close proc_init (os_init\<lparr>child := Zombie (Signaled 9), pty := [PtyData []]\<rparr>)
     = Some (Inr (LFail (Killed_with_signal 9),
          proc_init\<lparr>p_status := Signaled 9, p_pid := 0\<rparr>,
          os_init\<lparr>child := Gone, pty := [PtyData []], trace := [Waitpid 100 True]\<rparr>))
   \<and> 0 < p_pid proc_init \<and> 0 \<le> p_termctl proc_init \<and> \<not> p_error proc_init
   \<and> orchlua_process_read (proc_init\<lparr>p_status := Signaled 9, p_pid := 0\<rparr>) (\<lambda>d. True) None
        (os_init\<lparr>child := Gone, pty := [PtyData []], trace := [Waitpid 100 True]\<rparr>)
     = Inl AssertFail"
proof -
  let ?s = "os_init\<lparr>child := Zombie (Signaled 9), pty := [PtyData []]\<rparr>"
  let ?self' = "proc_init\<lparr>p_status := Signaled 9, p_pid := 0\<rparr>"
  let ?s' = "os_init\<lparr>child := Gone, pty := [PtyData []], trace := [Waitpid 100 True]\<rparr>"
  have close: "orchlua_process_close proc_init ?s
      = Some (Inr (LFail (Killed_with_signal 9), ?self', ?s'))"
    by (simp add: orchlua_process_close_def orchlua_process_killed_def waitpid_nohang_def
        proc_init_def os_init_def emit_def Let_def)
  have fd: "0 \<le> p_termctl proc_init" and err: "\<not> p_error proc_init"
    and pid: "0 < p_pid proc_init"
    by (simp_all add: proc_init_sel)
  have eof: "pty ?s = PtyReadFail EIO # [] \<or> pty ?s = PtyData [] # []" by simp
  have tmo: "(None :: int option) = None \<or> (\<exists>t. (None :: int option) = Some t \<and> 0 \<le> t)" by simp
  from C8_read_eof_after_reaped_asserts [OF close pid fd err eof tmo, of "\<lambda>d. True"]
  have "orchlua_process_read ?self' (\<lambda>d. True) None ?s' = Inl AssertFail" by simp
  with close pid fd err show ?thesis by simp
qed



end
